theory Spec2Isabelle
  imports Complex_Main "HOL-Library.Word" "HOL-Library.Char_ord" "HOL-Library.List_Lexorder"
begin

unbundle bit_operations_syntax

chapter \<open>Email_Resilient_Service: a shallow embedding of the resilience primitives\<close>

text \<open>
  The TypeScript sources are embedded function by function. Objects are records that are
  passed in and returned updated; a \<^verbatim>\<open>Map\<close> is a partial function; a rejected promise
  (a \<^verbatim>\<open>throw\<close>) is the left injection of a sum; \<^verbatim>\<open>Date.now()\<close> reads the clock of an
  explicit world value. The embedding is sequential: one task runs from its call to its
  completion, and no other task of the event loop runs in between.
\<close>

section \<open>Runtime: thrown values, the world, timers\<close>

text \<open>
  JavaScript can throw any value. The sources only ever ask whether a thrown value is an
  \<^verbatim>\<open>Error\<close> instance and, if so, read its \<^verbatim>\<open>message\<close>.
\<close>

datatype thrown = Error (message: string) | NonError string

text \<open>
  The world outside the service: the millisecond clock that \<^verbatim>\<open>Date.now()\<close> and
  \<^verbatim>\<open>new Date()\<close> read, and an environment \<open>'e\<close> that the asynchronous operations (the
  delivery backends, the closures handed to the primitives) may read and change.
  An asynchronous operation \<^verbatim>\<open>() => Promise<T>\<close> takes the world, and returns the world it
  leaves with either the value it resolves to or the value it rejects with.
\<close>

datatype 'e world = World (clock: int) (env: 'e)

type_synonym ('a, 'e) async = "'e world \<Rightarrow> (thrown + 'a) \<times> 'e world"

text \<open>
  \<^verbatim>\<open>await new Promise(resolve => setTimeout(resolve, ms))\<close>. Node truncates the delay to a
  whole number of milliseconds and uses 1 when it is below 1 or above 2147483647. The
  timer is taken to fire exactly when it is due.
\<close>

definition timerDelay :: "real \<Rightarrow> int" where
  "timerDelay ms = (if ms < 1 \<or> 2147483647 < ms then 1 else \<lfloor>ms\<rfloor>)"

definition sleep :: "real \<Rightarrow> 'e world \<Rightarrow> 'e world" where
  "sleep ms w = World (clock w + timerDelay ms) (env w)"

section \<open>Data model (src/types/index.ts)\<close>

datatype recipients = Single string | Multiple "string list"

record EmailAttachment =
  filename :: string
  content :: string
  contentType :: "string option"

text \<open>The field \<^verbatim>\<open>from\<close> is named \<open>sender\<close> here.\<close>

record EmailData =
  to :: recipients
  sender :: string
  subject :: string
  body :: string
  html :: "string option"
  cc :: "string list option"
  bcc :: "string list option"
  attachments :: "EmailAttachment list option"

record EmailResult =
  success :: bool
  messageId :: "string option"
  error :: "string option"
  provider :: string
  timestamp :: int

datatype EmailStatusKind = pending | sending | sent | failed | retrying

record EmailStatus =
  statusId :: string
  status :: EmailStatusKind
  attempts :: int
  statusMaxAttempts :: int
  lastAttempt :: "int option"
  nextRetry :: "int option"
  result :: "EmailResult option"
  statusCreatedAt :: int
  updatedAt :: int

record RetryConfig =
  maxAttempts :: int
  initialDelay :: real
  maxDelay :: real
  backoffMultiplier :: real

record RateLimitConfig =
  maxRequests :: int
  timeWindow :: int

record CircuitBreakerConfig =
  failureThreshold :: int
  recoveryTimeout :: int
  monitoringPeriod :: int

record 'e EmailProvider =
  name :: string
  send :: "EmailData \<Rightarrow> (EmailResult, 'e) async"
  isHealthy :: "(bool, 'e) async"

record 'e EmailServiceConfig =
  retry :: RetryConfig
  rateLimit :: RateLimitConfig
  circuitBreaker :: CircuitBreakerConfig
  providers :: "'e EmailProvider list"

record QueueItem =
  itemId :: string
  email :: EmailData
  priority :: int
  createdAt :: int
  retryCount :: int

datatype CircuitBreakerState = CLOSED | OPEN | HALF_OPEN

section \<open>EmailQueue (src/utils/EmailQueue.ts)\<close>

text \<open>
  The \<^verbatim>\<open>processor\<close> field holds the handler given to \<^verbatim>\<open>startProcessing\<close>; the handler
  is a parameter of the drain step below, and the record keeps whether one is set.
\<close>

record EmailQueue =
  queue :: "QueueItem list"
  processing :: bool
  hasProcessor :: bool

definition EmailQueue_new :: EmailQueue where
  "EmailQueue_new = \<lparr>queue = [], processing = False, hasProcessor = False\<rparr>"

text \<open>
  The scan of \<^verbatim>\<open>insertWithPriority\<close>: \<^verbatim>\<open>insertIndex\<close> moves past every leading item
  whose priority is strictly below the new one, and the loop breaks at the first item
  where that fails.
\<close>

fun insertIndex :: "QueueItem list \<Rightarrow> QueueItem \<Rightarrow> nat" where
  "insertIndex [] item = 0"
| "insertIndex (q # qs) item =
     (if priority q < priority item then Suc (insertIndex qs item) else 0)"

text \<open>\<^verbatim>\<open>this.queue.splice(insertIndex, 0, item)\<close>\<close>

definition insertWithPriority :: "QueueItem \<Rightarrow> EmailQueue \<Rightarrow> EmailQueue" where
  "insertWithPriority item q =
     (let i = insertIndex (queue q) item
      in q\<lparr>queue := take i (queue q) @ item # drop i (queue q)\<rparr>)"

text \<open>
  \<^verbatim>\<open>enqueue\<close>: \<open>uuid\<close> is the value \<^verbatim>\<open>generateUUID()\<close> returned (src/utils/UUID.ts is not
  among the sources) and \<open>now\<close> the clock reading of \<^verbatim>\<open>new Date()\<close>.
\<close>

definition enqueue :: "EmailData \<Rightarrow> int \<Rightarrow> string \<Rightarrow> int \<Rightarrow> EmailQueue \<Rightarrow> string \<times> EmailQueue" where
  "enqueue e prio uuid now q =
     (let item = \<lparr>itemId = uuid, email = e, priority = prio, createdAt = now, retryCount = 0\<rparr>
      in (uuid, insertWithPriority item q))"

text \<open>\<^verbatim>\<open>this.queue.shift()\<close>: \<open>None\<close> is \<^verbatim>\<open>undefined\<close>.\<close>

definition dequeue :: "EmailQueue \<Rightarrow> QueueItem option \<times> EmailQueue" where
  "dequeue q = (case queue q of [] \<Rightarrow> (None, q) | x # xs \<Rightarrow> (Some x, q\<lparr>queue := xs\<rparr>))"

definition peek :: "EmailQueue \<Rightarrow> QueueItem option" where
  "peek q = (case queue q of [] \<Rightarrow> None | x # xs \<Rightarrow> Some x)"

text \<open>\<^verbatim>\<open>remove\<close>: the first item with the id is spliced out.\<close>

fun removeFirst :: "string \<Rightarrow> QueueItem list \<Rightarrow> QueueItem list" where
  "removeFirst i [] = []"
| "removeFirst i (x # xs) = (if itemId x = i then xs else x # removeFirst i xs)"

definition remove_item :: "string \<Rightarrow> EmailQueue \<Rightarrow> bool \<times> EmailQueue" where
  "remove_item i q =
     (if \<exists>x \<in> set (queue q). itemId x = i then (True, q\<lparr>queue := removeFirst i (queue q)\<rparr>)
      else (False, q))"

definition getSize :: "EmailQueue \<Rightarrow> nat" where
  "getSize q = length (queue q)"

definition isEmpty :: "EmailQueue \<Rightarrow> bool" where
  "isEmpty q = (length (queue q) = 0)"

definition clear :: "EmailQueue \<Rightarrow> EmailQueue" where
  "clear q = q\<lparr>queue := []\<rparr>"

definition getItems :: "EmailQueue \<Rightarrow> QueueItem list" where
  "getItems q = queue q"

definition getItemById :: "string \<Rightarrow> EmailQueue \<Rightarrow> QueueItem option" where
  "getItemById i q = find (\<lambda>x. itemId x = i) (queue q)"

definition updatePriority :: "string \<Rightarrow> int \<Rightarrow> EmailQueue \<Rightarrow> bool \<times> EmailQueue" where
  "updatePriority i newPriority q =
     (case getItemById i q of
        None \<Rightarrow> (False, q)
      | Some item \<Rightarrow>
          (True, insertWithPriority (item\<lparr>priority := newPriority\<rparr>) (snd (remove_item i q))))"

text \<open>\<^verbatim>\<open>startProcessing\<close> throws when a drain is already running.\<close>

definition startProcessing :: "EmailQueue \<Rightarrow> thrown + EmailQueue" where
  "startProcessing q =
     (if processing q then Inl (Error ''Queue is already processing'')
      else Inr (q\<lparr>processing := True, hasProcessor := True\<rparr>))"

definition stopProcessing :: "EmailQueue \<Rightarrow> EmailQueue" where
  "stopProcessing q = q\<lparr>processing := False\<rparr>"

section \<open>CircuitBreaker (src/utils/CircuitBreaker.ts)\<close>

record CircuitBreaker =
  state :: CircuitBreakerState
  failureCount :: int
  lastFailureTime :: "int option"
  nextAttemptTime :: "int option"
  breakerConfig :: CircuitBreakerConfig

definition CircuitBreaker_new :: "CircuitBreakerConfig \<Rightarrow> CircuitBreaker" where
  "CircuitBreaker_new c =
     \<lparr>state = CLOSED, failureCount = 0, lastFailureTime = None, nextAttemptTime = None,
      breakerConfig = c\<rparr>"

definition onSuccess :: "CircuitBreaker \<Rightarrow> CircuitBreaker" where
  "onSuccess cb =
     cb\<lparr>failureCount := 0, state := CLOSED, lastFailureTime := None, nextAttemptTime := None\<rparr>"

text \<open>\<open>now\<close> is the clock reading of \<^verbatim>\<open>new Date()\<close> and of \<^verbatim>\<open>Date.now()\<close> in \<^verbatim>\<open>onFailure\<close>.\<close>

definition onFailure :: "int \<Rightarrow> CircuitBreaker \<Rightarrow> CircuitBreaker" where
  "onFailure now cb =
     (let cb1 = cb\<lparr>failureCount := failureCount cb + 1, lastFailureTime := Some now\<rparr>
      in if failureThreshold (breakerConfig cb1) \<le> failureCount cb1
         then cb1\<lparr>state := OPEN, nextAttemptTime := Some (now + recoveryTimeout (breakerConfig cb1))\<rparr>
         else cb1)"

definition shouldAttemptReset :: "int \<Rightarrow> CircuitBreaker \<Rightarrow> bool" where
  "shouldAttemptReset now cb =
     (case nextAttemptTime cb of None \<Rightarrow> False | Some t \<Rightarrow> t \<le> now)"

text \<open>Decimal text of a number that is not negative, as a template literal prints it.\<close>

definition digitChar :: "nat \<Rightarrow> char" where
  "digitChar n = ''0123456789'' ! (n mod 10)"

function showNat :: "int \<Rightarrow> string" where
  "showNat n =
     (if n < 10 then [digitChar (nat n)]
      else showNat (n div 10) @ [digitChar (nat (n mod 10))])"
  by pat_completeness auto
termination
  by (relation "measure nat") auto

declare showNat.simps [simp del]

definition showInt :: "int \<Rightarrow> string" where
  "showInt i = (if i < 0 then CHR ''-'' # showNat (- i) else showNat i)"

text \<open>
  The text of \<^verbatim>\<open>${this.lastFailureTime}\<close>. JavaScript prints a \<^verbatim>\<open>Date\<close> in the local time
  zone; the instant is printed here as its millisecond count. No source reads the text back.
\<close>

definition dateText :: "int option \<Rightarrow> string" where
  "dateText d = (case d of None \<Rightarrow> ''undefined'' | Some t \<Rightarrow> showInt t)"

definition circuitOpenError :: "CircuitBreaker \<Rightarrow> thrown" where
  "circuitOpenError cb =
     Error (''Circuit breaker is OPEN. Last failure: '' @ dateText (lastFailureTime cb))"

text \<open>
  The first statement of \<^verbatim>\<open>execute\<close>: an open breaker either moves to \<^verbatim>\<open>HALF_OPEN\<close> or
  throws; any other breaker passes unchanged.
\<close>

definition admit :: "int \<Rightarrow> CircuitBreaker \<Rightarrow> thrown + CircuitBreaker" where
  "admit now cb =
     (if state cb = OPEN
      then (if shouldAttemptReset now cb then Inr (cb\<lparr>state := HALF_OPEN\<rparr>)
            else Inl (circuitOpenError cb))
      else Inr cb)"

definition CircuitBreaker_execute ::
  "CircuitBreaker \<Rightarrow> ('a, 'e) async \<Rightarrow> 'e world \<Rightarrow> (thrown + 'a) \<times> CircuitBreaker \<times> 'e world" where
  "CircuitBreaker_execute cb operation w =
     (case admit (clock w) cb of
        Inl err \<Rightarrow> (Inl err, cb, w)
      | Inr cb1 \<Rightarrow>
          (case operation w of
             (Inr r, w') \<Rightarrow> (Inr r, onSuccess cb1, w')
           | (Inl err, w') \<Rightarrow> (Inl err, onFailure (clock w') cb1, w')))"

definition getStats :: "CircuitBreaker \<Rightarrow> CircuitBreakerState \<times> int \<times> int option \<times> int option" where
  "getStats cb = (state cb, failureCount cb, lastFailureTime cb, nextAttemptTime cb)"

definition isOpen :: "CircuitBreaker \<Rightarrow> bool" where
  "isOpen cb = (state cb = OPEN)"

definition isHalfOpen :: "CircuitBreaker \<Rightarrow> bool" where
  "isHalfOpen cb = (state cb = HALF_OPEN)"

definition isClosed :: "CircuitBreaker \<Rightarrow> bool" where
  "isClosed cb = (state cb = CLOSED)"

definition CircuitBreaker_reset :: "CircuitBreaker \<Rightarrow> CircuitBreaker" where
  "CircuitBreaker_reset cb =
     cb\<lparr>state := CLOSED, failureCount := 0, lastFailureTime := None, nextAttemptTime := None\<rparr>"

section \<open>RetryMechanism (src/utils/RetryMechanism.ts)\<close>

text \<open>
  The object holds only its configuration. \<^verbatim>\<open>Math.pow\<close> with a whole exponent is the
  integer power of the reals (the reciprocal for a negative exponent); rounding of
  floating-point numbers is not modelled.
\<close>

definition calculateDelay :: "RetryConfig \<Rightarrow> int \<Rightarrow> real" where
  "calculateDelay c attempt =
     (let delay = initialDelay c * (backoffMultiplier c powi (attempt - 1))
      in min delay (maxDelay c))"

definition getNextRetryDelay :: "RetryConfig \<Rightarrow> int \<Rightarrow> real" where
  "getNextRetryDelay c attempt = calculateDelay c attempt"

definition shouldRetry :: "RetryConfig \<Rightarrow> int \<Rightarrow> bool" where
  "shouldRetry c attempt = (attempt < maxAttempts c)"

function RetryMechanism_execute ::
  "RetryConfig \<Rightarrow> ('a, 'e) async \<Rightarrow> int \<Rightarrow> 'e world \<Rightarrow> (thrown + 'a) \<times> 'e world" where
  "RetryMechanism_execute c operation attempt w =
     (case operation w of
        (Inr r, w') \<Rightarrow> (Inr r, w')
      | (Inl err, w') \<Rightarrow>
          (if maxAttempts c \<le> attempt then (Inl err, w')
           else RetryMechanism_execute c operation (attempt + 1)
                  (sleep (calculateDelay c attempt) w')))"
  by pat_completeness auto
termination
  by (relation "measure (\<lambda>(c, operation, attempt, w). nat (maxAttempts c - attempt))") auto

declare RetryMechanism_execute.simps [simp del]

section \<open>RateLimiter (src/utils/RateLimiter.ts)\<close>

record RateLimiter =
  requests :: "int list"
  limiterConfig :: RateLimitConfig

definition RateLimiter_new :: "RateLimitConfig \<Rightarrow> RateLimiter" where
  "RateLimiter_new c = \<lparr>requests = [], limiterConfig = c\<rparr>"

text \<open>The purge shared by \<^verbatim>\<open>acquire\<close> and \<^verbatim>\<open>getCurrentUsage\<close>.\<close>

definition purge :: "int \<Rightarrow> RateLimiter \<Rightarrow> RateLimiter" where
  "purge now rl =
     rl\<lparr>requests := filter (\<lambda>timestamp. now - timestamp < timeWindow (limiterConfig rl)) (requests rl)\<rparr>"

definition acquire :: "int \<Rightarrow> RateLimiter \<Rightarrow> bool \<times> RateLimiter" where
  "acquire now rl =
     (let rl1 = purge now rl
      in if maxRequests (limiterConfig rl1) \<le> int (length (requests rl1)) then (False, rl1)
         else (True, rl1\<lparr>requests := requests rl1 @ [now]\<rparr>))"

text \<open>\<^verbatim>\<open>Math.min(...xs)\<close>: \<open>None\<close> is the \<^verbatim>\<open>Infinity\<close> of an empty argument list.\<close>

definition minimum :: "int list \<Rightarrow> int option" where
  "minimum xs = (case xs of [] \<Rightarrow> None | x # r \<Rightarrow> Some (fold min r x))"

text \<open>
  \<^verbatim>\<open>waitForSlot\<close> may loop for ever, so it returns an option: \<open>None\<close> is a call that
  never returns. With no recorded request the wait time is \<^verbatim>\<open>Infinity\<close>, which the timer
  takes as 1 ms.
\<close>

partial_function (option) waitForSlot ::
  "RateLimiter \<Rightarrow> 'e world \<Rightarrow> (RateLimiter \<times> 'e world) option" where
  "waitForSlot rl w =
     (let a = acquire (clock w) rl
      in if fst a then Some (snd a, w)
         else (case minimum (requests (snd a)) of
                 None \<Rightarrow> waitForSlot (snd a) (sleep 1 w)
               | Some oldestRequest \<Rightarrow>
                   (let waitTime = timeWindow (limiterConfig (snd a)) - (clock w - oldestRequest)
                    in if 0 < waitTime then waitForSlot (snd a) (sleep (real_of_int waitTime) w)
                       else waitForSlot (snd a) w)))"

declare waitForSlot.simps [code]

definition getCurrentUsage :: "int \<Rightarrow> RateLimiter \<Rightarrow> int \<times> RateLimiter" where
  "getCurrentUsage now rl = (let rl1 = purge now rl in (int (length (requests rl1)), rl1))"

definition getRemainingSlots :: "int \<Rightarrow> RateLimiter \<Rightarrow> int \<times> RateLimiter" where
  "getRemainingSlots now rl =
     (let u = getCurrentUsage now rl in (max 0 (maxRequests (limiterConfig rl) - fst u), snd u))"

definition RateLimiter_reset :: "RateLimiter \<Rightarrow> RateLimiter" where
  "RateLimiter_reset rl = rl\<lparr>requests := []\<rparr>"

section \<open>IdempotencyService (src/utils/IdempotencyService.ts)\<close>

record IdempotencyService =
  cache :: "string \<rightharpoonup> EmailResult"
  pendingRequests :: "string set"

definition IdempotencyService_new :: IdempotencyService where
  "IdempotencyService_new = \<lparr>cache = Map.empty, pendingRequests = {}\<rparr>"

subsection \<open>The text that \<^verbatim>\<open>JSON.stringify\<close> produces for the key material\<close>

text \<open>
  Strings are sequences of 8-bit characters here, so a character stands for the UTF-16
  code unit of the same number. \<^verbatim>\<open>JSON.stringify\<close> quotes a string, escapes the quote, the
  backslash and the control characters, and leaves out a property whose value is
  \<^verbatim>\<open>undefined\<close>.
\<close>

definition hexDigit :: "nat \<Rightarrow> char" where
  "hexDigit n = ''0123456789abcdef'' ! (n mod 16)"

definition jsonEscape :: "char \<Rightarrow> string" where
  "jsonEscape c =
     (let n = (of_char c :: nat)
      in if n = 34 then [CHR 0x5C, CHR 0x22]
         else if n = 92 then [CHR 0x5C, CHR 0x5C]
         else if n = 8 then [CHR 0x5C, CHR ''b'']
         else if n = 12 then [CHR 0x5C, CHR ''f'']
         else if n = 10 then [CHR 0x5C, CHR ''n'']
         else if n = 13 then [CHR 0x5C, CHR ''r'']
         else if n = 9 then [CHR 0x5C, CHR ''t'']
         else if n < 32 then [CHR 0x5C] @ ''u00'' @ [hexDigit (n div 16), hexDigit n]
         else [c])"

definition jsonString :: "string \<Rightarrow> string" where
  "jsonString s = CHR 0x22 # concat (map jsonEscape s) @ [CHR 0x22]"

fun joinWith :: "string \<Rightarrow> string list \<Rightarrow> string" where
  "joinWith sep [] = []"
| "joinWith sep [x] = x"
| "joinWith sep (x # y # r) = x @ sep @ joinWith sep (y # r)"

definition jsonArray :: "string list \<Rightarrow> string" where
  "jsonArray xs = ''['' @ joinWith '','' (map jsonString xs) @ '']''"

definition jsonObject :: "(string \<times> string option) list \<Rightarrow> string" where
  "jsonObject props =
     ''{'' @ joinWith '',''
        (concat (map (\<lambda>(k, v). case v of None \<Rightarrow> [] | Some j \<Rightarrow> [jsonString k @ '':'' @ j]) props))
      @ ''}''"

subsection \<open>\<^verbatim>\<open>generateKey\<close>\<close>

text \<open>
  \<^verbatim>\<open>Array.prototype.sort\<close> sorts the array it is called on, in place, by code units. The
  arrays of the message are the arrays that are sorted, so the call leaves the message
  changed: \<open>sortedInPlace\<close> is the message after the three \<^verbatim>\<open>sort()\<close> calls.
\<close>

definition sortedInPlace :: "EmailData \<Rightarrow> EmailData" where
  "sortedInPlace e =
     e\<lparr>to := (case to e of Single s \<Rightarrow> Single s | Multiple xs \<Rightarrow> Multiple (sort xs)),
       cc := map_option sort (cc e),
       bcc := map_option sort (bcc e)\<rparr>"

definition emailContent :: "EmailData \<Rightarrow> string option \<Rightarrow> string" where
  "emailContent e userId =
     jsonObject
       [(''to'', Some (case to e of Single s \<Rightarrow> jsonString s | Multiple xs \<Rightarrow> jsonArray xs)),
        (''from'', Some (jsonString (sender e))),
        (''subject'', Some (jsonString (subject e))),
        (''body'', Some (jsonString (body e))),
        (''html'', map_option jsonString (html e)),
        (''cc'', map_option jsonArray (cc e)),
        (''bcc'', map_option jsonArray (bcc e)),
        (''userId'', map_option jsonString userId)]"

text \<open>
  The hash loop: \<^verbatim>\<open>hash = ((hash << 5) - hash) + char; hash = hash & hash\<close> keeps a signed
  32-bit integer, that is, the arithmetic of 32-bit words.
\<close>

definition hashStep :: "32 word \<Rightarrow> char \<Rightarrow> 32 word" where
  "hashStep h c = (let h1 = (push_bit 5 h - h) + of_char c in h1 AND h1)"

definition hashString :: "string \<Rightarrow> 32 word" where
  "hashString s = foldl hashStep 0 s"

text \<open>A string is truthy when it is defined and not empty.\<close>

definition truthy :: "string option \<Rightarrow> bool" where
  "truthy x = (case x of None \<Rightarrow> False | Some s \<Rightarrow> s \<noteq> [])"

definition orElse :: "string option \<Rightarrow> string \<Rightarrow> string" where
  "orElse x d = (if truthy x then the x else d)"

text \<open>
  \<^verbatim>\<open>generateKey(email, idempotencyKey?, userId?)\<close> returns the key; the second component
  is the message as the call leaves it.
\<close>

definition generateKey ::
  "EmailData \<Rightarrow> string option \<Rightarrow> string option \<Rightarrow> string \<times> EmailData" where
  "generateKey e idempotencyKey userId =
     (if truthy idempotencyKey then (''idempotency_'' @ the idempotencyKey, e)
      else
        (let e1 = sortedInPlace e;
             h = hashString (emailContent e1 userId)
         in (''email_'' @ showNat \<bar>sint h\<bar> @ ''_'' @ orElse userId ''anonymous'', e1)))"

subsection \<open>\<^verbatim>\<open>execute\<close>\<close>

text \<open>
  \<^verbatim>\<open>waitForPendingRequest\<close> polls every 100 ms for at most 30000 ms. No other task runs
  between two polls here, so the polls see the service as it was at the call.
\<close>

function waitForPendingRequest ::
  "string \<Rightarrow> IdempotencyService \<Rightarrow> int \<Rightarrow> 'e world \<Rightarrow> (thrown + EmailResult) \<times> 'e world" where
  "waitForPendingRequest key svc startTime w =
     (if clock w - startTime < 30000
      then (case cache svc key of
              Some r \<Rightarrow> (Inr r, w)
            | None \<Rightarrow>
                (if key \<notin> pendingRequests svc
                 then (Inl (Error ''Request failed while waiting for pending operation''), w)
                 else waitForPendingRequest key svc startTime (sleep 100 w)))
      else (Inl (Error ''Timeout waiting for pending request''), w))"
  by pat_completeness auto
termination
  by (relation "measure (\<lambda>(key, svc, startTime, w). nat (30000 - (clock w - startTime)))")
     (auto simp: sleep_def timerDelay_def)

declare waitForPendingRequest.simps [simp del]

definition IdempotencyService_execute ::
  "string \<Rightarrow> (EmailResult, 'e) async \<Rightarrow> IdempotencyService \<Rightarrow> 'e world
     \<Rightarrow> (thrown + EmailResult) \<times> IdempotencyService \<times> 'e world" where
  "IdempotencyService_execute key operation svc w =
     (case cache svc key of
        Some existingResult \<Rightarrow> (Inr existingResult, svc, w)
      | None \<Rightarrow>
          (if key \<in> pendingRequests svc
           then (case waitForPendingRequest key svc (clock w) w of (r, w') \<Rightarrow> (r, svc, w'))
           else
             (let svc1 = svc\<lparr>pendingRequests := insert key (pendingRequests svc)\<rparr>
              in case operation w of
                   (Inr r, w') \<Rightarrow>
                     (Inr r,
                      svc1\<lparr>cache := (cache svc1)(key \<mapsto> r),
                           pendingRequests := pendingRequests svc1 - {key}\<rparr>,
                      w')
                 | (Inl err, w') \<Rightarrow>
                     (Inl err, svc1\<lparr>pendingRequests := pendingRequests svc1 - {key}\<rparr>, w'))))"

definition hasResult :: "string \<Rightarrow> IdempotencyService \<Rightarrow> bool" where
  "hasResult key svc = (cache svc key \<noteq> None)"

definition getResult :: "string \<Rightarrow> IdempotencyService \<Rightarrow> EmailResult option" where
  "getResult key svc = cache svc key"

definition clearCache :: "IdempotencyService \<Rightarrow> IdempotencyService" where
  "clearCache svc = svc\<lparr>cache := Map.empty\<rparr>"

definition removeFromCache :: "string \<Rightarrow> IdempotencyService \<Rightarrow> IdempotencyService" where
  "removeFromCache key svc = svc\<lparr>cache := (cache svc)(key := None)\<rparr>"

section \<open>EmailService (src/EmailService.ts)\<close>

text \<open>
  The fields \<^verbatim>\<open>providers\<close> and \<^verbatim>\<open>retryMechanism\<close> are copies of parts of the
  configuration, which never changes; they are read from \<open>config\<close>.
\<close>

record 'e EmailService =
  config :: "'e EmailServiceConfig"
  circuitBreakers :: "string \<rightharpoonup> CircuitBreaker"
  rateLimiter :: RateLimiter
  idempotencyService :: IdempotencyService
  emailQueue :: EmailQueue
  statusTracking :: "string \<rightharpoonup> EmailStatus"

definition EmailService_new :: "'e EmailServiceConfig \<Rightarrow> 'e EmailService" where
  "EmailService_new c =
     \<lparr>config = c,
      circuitBreakers =
        foldl (\<lambda>m p. m(name p \<mapsto> CircuitBreaker_new (circuitBreaker c))) Map.empty (providers c),
      rateLimiter = RateLimiter_new (rateLimit c),
      idempotencyService = IdempotencyService_new,
      emailQueue = EmailQueue_new,
      statusTracking = Map.empty\<rparr>"

text \<open>
  \<^verbatim>\<open>updateStatus\<close>: \<open>now\<close> is the clock reading of its \<^verbatim>\<open>new Date()\<close> calls. A missing
  record makes the call return at once.
\<close>

definition updateStatus ::
  "string \<Rightarrow> EmailStatusKind \<Rightarrow> EmailResult option \<Rightarrow> string option \<Rightarrow> int
     \<Rightarrow> 'e EmailService \<Rightarrow> 'e EmailService" where
  "updateStatus emailId st res err now s =
     (case statusTracking s emailId of
        None \<Rightarrow> s
      | Some emailStatus \<Rightarrow>
          (let es1 = emailStatus\<lparr>status := st, updatedAt := now\<rparr>;
               es2 =
                 (if st = sending then es1\<lparr>attempts := attempts es1 + 1, lastAttempt := Some now\<rparr>
                  else if st = sent \<and> res \<noteq> None then es1\<lparr>result := res\<rparr>
                  else if st = failed
                  then es1\<lparr>result :=
                         Some \<lparr>success = False, messageId = None,
                               error = Some (orElse err ''Unknown error''),
                               provider = ''unknown'', timestamp = now\<rparr>\<rparr>
                  else es1)
           in s\<lparr>statusTracking := (statusTracking s)(emailId \<mapsto> es2)\<rparr>))"

definition getEmailStatus :: "'e EmailService \<Rightarrow> string \<Rightarrow> EmailStatus option" where
  "getEmailStatus s emailId = statusTracking s emailId"

text \<open>
  The loop of \<^verbatim>\<open>sendWithFallback\<close> over the providers, with \<^verbatim>\<open>lastError\<close> as an
  accumulator. A provider without a breaker is skipped. The breakers live in a map by
  provider name, so a breaker that \<^verbatim>\<open>execute\<close> changed is stored back under its name.
\<close>

fun fallbackLoop ::
  "RetryConfig \<Rightarrow> EmailData \<Rightarrow> 'e EmailProvider list \<Rightarrow> thrown option
     \<Rightarrow> (string \<rightharpoonup> CircuitBreaker) \<Rightarrow> 'e world
     \<Rightarrow> (thrown + EmailResult) \<times> (string \<rightharpoonup> CircuitBreaker) \<times> 'e world" where
  "fallbackLoop rc e [] lastError cbs w =
     (Inl (case lastError of Some err \<Rightarrow> err | None \<Rightarrow> Error ''All providers failed''), cbs, w)"
| "fallbackLoop rc e (p # ps) lastError cbs w =
     (case cbs (name p) of
        None \<Rightarrow> fallbackLoop rc e ps lastError cbs w
      | Some cb \<Rightarrow>
          (case CircuitBreaker_execute cb (RetryMechanism_execute rc (send p e) 1) w of
             (Inr r, cb', w') \<Rightarrow>
               (if success r then (Inr r, cbs(name p \<mapsto> cb'), w')
                else fallbackLoop rc e ps
                       (Some (Error (orElse (error r) ''Provider returned failure'')))
                       (cbs(name p \<mapsto> cb')) w')
           | (Inl err, cb', w') \<Rightarrow>
               fallbackLoop rc e ps
                 (Some (case err of Error m \<Rightarrow> Error m | NonError v \<Rightarrow> Error ''Unknown error''))
                 (cbs(name p \<mapsto> cb')) w'))"

definition sendWithFallback ::
  "'e EmailServiceConfig \<Rightarrow> EmailData \<Rightarrow> (string \<rightharpoonup> CircuitBreaker) \<Rightarrow> 'e world
     \<Rightarrow> (thrown + EmailResult) \<times> (string \<rightharpoonup> CircuitBreaker) \<times> 'e world" where
  "sendWithFallback c e cbs w = fallbackLoop (retry c) e (providers c) None cbs w"

text \<open>
  The closure \<^verbatim>\<open>async () => this.sendWithFallback(email)\<close> that \<^verbatim>\<open>processEmail\<close> hands to
  \<^verbatim>\<open>IdempotencyService.execute\<close> captures the breakers of the service. As an asynchronous
  operation it carries them in the environment of its world.
\<close>

definition withBreakers ::
  "((string \<rightharpoonup> CircuitBreaker) \<Rightarrow> 'e world
      \<Rightarrow> (thrown + 'a) \<times> (string \<rightharpoonup> CircuitBreaker) \<times> 'e world)
     \<Rightarrow> ('a, (string \<rightharpoonup> CircuitBreaker) \<times> 'e) async" where
  "withBreakers f W =
     (case f (fst (env W)) (World (clock W) (snd (env W))) of
        (r, cbs, w) \<Rightarrow> (r, World (clock w) (cbs, env w)))"

text \<open>
  \<^verbatim>\<open>processEmail\<close>: \<open>None\<close> is a call that never settles (the wait for a rate-limit slot
  has no deadline). The \<^verbatim>\<open>catch\<close> block records the failure and rethrows.
\<close>

definition processEmail ::
  "string \<Rightarrow> EmailData \<Rightarrow> string \<Rightarrow> string option \<Rightarrow> 'e EmailService \<Rightarrow> 'e world
     \<Rightarrow> ((thrown + unit) \<times> 'e EmailService \<times> 'e world) option" where
  "processEmail emailId e idempotencyKey userId s w =
     (let s1 = updateStatus emailId sending None None (clock w) s
      in case waitForSlot (rateLimiter s1) w of
           None \<Rightarrow> None
         | Some (rl, w1) \<Rightarrow>
             (case IdempotencyService_execute idempotencyKey
                     (withBreakers (sendWithFallback (config s1) e))
                     (idempotencyService s1) (World (clock w1) (circuitBreakers s1, env w1)) of
                (r, idem, W) \<Rightarrow>
                  (let s2 = s1\<lparr>rateLimiter := rl, idempotencyService := idem,
                               circuitBreakers := fst (env W)\<rparr>;
                       w2 = World (clock W) (snd (env W))
                   in case r of
                        Inr res \<Rightarrow> Some (Inr (), updateStatus emailId sent (Some res) None (clock w2) s2, w2)
                      | Inl err \<Rightarrow>
                          Some (Inl err,
                                updateStatus emailId failed None
                                  (Some (case err of Error m \<Rightarrow> m | NonError v \<Rightarrow> ''Unknown error''))
                                  (clock w2) s2,
                                w2))))"

text \<open>\<^verbatim>\<open>error.message\<close> of a caught value: \<open>None\<close> is \<^verbatim>\<open>undefined\<close>.\<close>

definition messageOf :: "thrown \<Rightarrow> string option" where
  "messageOf err = (case err of Error m \<Rightarrow> Some m | NonError v \<Rightarrow> None)"

text \<open>The record that \<^verbatim>\<open>sendEmail\<close> writes before it launches the pipeline.\<close>

definition initialStatus :: "string \<Rightarrow> int \<Rightarrow> int \<Rightarrow> EmailStatus" where
  "initialStatus emailId maxAtt now =
     \<lparr>statusId = emailId, status = pending, attempts = 0, statusMaxAttempts = maxAtt,
      lastAttempt = None, nextRetry = None, result = None,
      statusCreatedAt = now, updatedAt = now\<rparr>"

text \<open>
  \<^verbatim>\<open>sendEmail(email, userId?)\<close>: \<open>uuid\<close> is the value \<^verbatim>\<open>generateUUID()\<close> returned. The call
  does not await the pipeline it launches; it resolves to the id whatever the pipeline
  does. The result is the id, the message as the call leaves it, and the service and
  world once the launched pipeline, with its \<^verbatim>\<open>catch\<close> handler, has settled (\<open>None\<close>
  when it never settles). \<^verbatim>\<open>userId\<close> is passed to \<^verbatim>\<open>generateKey\<close> in the position of
  its parameter \<^verbatim>\<open>idempotencyKey\<close>, as the source does.
\<close>

definition sendEmail ::
  "EmailData \<Rightarrow> string option \<Rightarrow> string \<Rightarrow> 'e EmailService \<Rightarrow> 'e world
     \<Rightarrow> string \<times> EmailData \<times> ('e EmailService \<times> 'e world) option" where
  "sendEmail e userId uuid s w =
     (let emailId = uuid;
          s1 = s\<lparr>statusTracking :=
                   (statusTracking s)(emailId \<mapsto>
                      initialStatus emailId (maxAttempts (retry (config s))) (clock w))\<rparr>;
          k = generateKey e userId None
      in (emailId, snd k,
          (case processEmail emailId (snd k) (fst k) userId s1 w of
             None \<Rightarrow> None
           | Some (Inr u, s2, w2) \<Rightarrow> Some (s2, w2)
           | Some (Inl err, s2, w2) \<Rightarrow>
               Some (updateStatus emailId failed None (messageOf err) (clock w2) s2, w2))))"

subsection \<open>Queue management\<close>

definition enqueueEmail ::
  "EmailData \<Rightarrow> int \<Rightarrow> string \<Rightarrow> 'e EmailService \<Rightarrow> 'e world \<Rightarrow> string \<times> 'e EmailService" where
  "enqueueEmail e prio uuid s w =
     (case enqueue e prio uuid (clock w) (emailQueue s) of
        (i, q) \<Rightarrow> (i, s\<lparr>emailQueue := q\<rparr>))"

text \<open>The handler that \<^verbatim>\<open>startQueueProcessing\<close> gives to the queue.\<close>

definition queueHandler ::
  "QueueItem \<Rightarrow> 'e EmailService \<Rightarrow> 'e world
     \<Rightarrow> ((thrown + unit) \<times> 'e EmailService \<times> 'e world) option" where
  "queueHandler item s w = processEmail (itemId item) (email item) [] None s w"

definition startQueueProcessing :: "'e EmailService \<Rightarrow> thrown + 'e EmailService" where
  "startQueueProcessing s =
     (case startProcessing (emailQueue s) of
        Inl err \<Rightarrow> Inl err
      | Inr q \<Rightarrow> Inr (s\<lparr>emailQueue := q\<rparr>))"

definition stopQueueProcessing :: "'e EmailService \<Rightarrow> 'e EmailService" where
  "stopQueueProcessing s = s\<lparr>emailQueue := stopProcessing (emailQueue s)\<rparr>"

text \<open>
  One run of \<^verbatim>\<open>EmailQueue.processNext\<close> with that handler. The first component is the
  delay of the timer that schedules the next run (\<open>None\<close>: no timer is set); the whole
  result is \<open>None\<close> when the handler never settles.
\<close>

definition processNext ::
  "'e EmailService \<Rightarrow> 'e world \<Rightarrow> (int option \<times> 'e EmailService \<times> 'e world) option" where
  "processNext s w =
     (if \<not> processing (emailQueue s) \<or> \<not> hasProcessor (emailQueue s) then Some (None, s, w)
      else
        (case dequeue (emailQueue s) of
           (None, q) \<Rightarrow> Some (Some 1000, s, w)
         | (Some item, q) \<Rightarrow>
             (case queueHandler item (s\<lparr>emailQueue := q\<rparr>) w of
                None \<Rightarrow> None
              | Some (Inr u, s', w') \<Rightarrow> Some (Some 10, s', w')
              | Some (Inl err, s', w') \<Rightarrow>
                  Some (Some 10,
                        (if retryCount item < 3
                         then s'\<lparr>emailQueue :=
                                  insertWithPriority (item\<lparr>retryCount := retryCount item + 1\<rparr>)
                                    (emailQueue s')\<rparr>
                         else s'),
                        w'))))"

subsection \<open>Utility methods\<close>

definition EmailService_clearCache :: "'e EmailService \<Rightarrow> 'e EmailService" where
  "EmailService_clearCache s = s\<lparr>idempotencyService := clearCache (idempotencyService s)\<rparr>"

definition resetCircuitBreakers :: "'e EmailService \<Rightarrow> 'e EmailService" where
  "resetCircuitBreakers s =
     s\<lparr>circuitBreakers := (\<lambda>n. map_option CircuitBreaker_reset (circuitBreakers s n))\<rparr>"

definition resetRateLimiter :: "'e EmailService \<Rightarrow> 'e EmailService" where
  "resetRateLimiter s = s\<lparr>rateLimiter := RateLimiter_reset (rateLimiter s)\<rparr>"

section \<open>Scenarios and auxiliary notions used by the properties\<close>

definition exampleEmail :: EmailData where
  "exampleEmail =
     \<lparr>to = Multiple [''zoe@example.com'', ''adam@example.com''], sender = ''noreply@example.com'',
      subject = ''Test Email'', body = ''This is a test email'', html = None,
      cc = None, bcc = None, attachments = None\<rparr>"


text \<open>
  The queue scenario: \<^verbatim>\<open>enqueue(a, 5)\<close>, \<^verbatim>\<open>enqueue(b, 10)\<close>, \<^verbatim>\<open>enqueue(c, 5)\<close> on an
  empty queue; the generated ids are \<open>a\<close>, \<open>b\<close> and \<open>c\<close>.
\<close>

definition queueAfterAB :: EmailQueue where
  "queueAfterAB =
     snd (enqueue exampleEmail 10 ''b'' 2 (snd (enqueue exampleEmail 5 ''a'' 1 EmailQueue_new)))"


subsection \<open>Circuit breaker runs\<close>




text \<open>The breaker configuration of the test suite, with threshold 2.\<close>

definition exampleBreakerConfig :: CircuitBreakerConfig where
  "exampleBreakerConfig = \<lparr>failureThreshold = 2, recoveryTimeout = 1000, monitoringPeriod = 2000\<rparr>"



subsection \<open>Retry schedules\<close>

text \<open>
  The world in which invocation number \<open>n + 1\<close> of a retried operation starts, when the
  \<open>n\<close> invocations before it have failed: after each of them the executor sleeps for the
  backoff delay of that attempt.
\<close>

primrec backoffWorld :: "RetryConfig \<Rightarrow> ('a, 'e) async \<Rightarrow> nat \<Rightarrow> 'e world \<Rightarrow> 'e world" where
  "backoffWorld c operation 0 w = w"
| "backoffWorld c operation (Suc n) w =
     sleep (calculateDelay c (int n + 1)) (snd (operation (backoffWorld c operation n w)))"

text \<open>The outcome of invocation number \<open>n + 1\<close> on that schedule.\<close>

definition nthAttempt ::
  "RetryConfig \<Rightarrow> ('a, 'e) async \<Rightarrow> nat \<Rightarrow> 'e world \<Rightarrow> (thrown + 'a) \<times> 'e world" where
  "nthAttempt c operation n w = operation (backoffWorld c operation n w)"

definition exampleRetryConfig :: RetryConfig where
  "exampleRetryConfig = \<lparr>maxAttempts = 3, initialDelay = 100, maxDelay = 1000, backoffMultiplier = 2\<rparr>"

text \<open>
  An operation that takes 1 ms, counts its invocations in the environment, rejects on
  its first invocation and resolves from the second on.
\<close>

definition flakyOp :: "(nat, nat) async" where
  "flakyOp w =
     (if 1 \<le> env w then Inr (env w) else Inl (Error ''transient''),
      World (clock w + 1) (Suc (env w)))"

text \<open>An operation that takes 1 ms, counts its invocations and rejects with their number.\<close>

definition countingFailure :: "(nat, nat) async" where
  "countingFailure w =
     (Inl (Error (showNat (int (Suc (env w))))), World (clock w + 1) (Suc (env w)))"

subsection \<open>Rate limiter runs\<close>

datatype limiterCall = Acquire | WaitForSlot | GetCurrentUsage

text \<open>
  A sequence of calls on one rate limiter. Before each call the given number of
  milliseconds passes (the clock does not run backwards). The whole run is \<open>None\<close> when
  one of its \<^verbatim>\<open>waitForSlot\<close> calls never returns.
\<close>

fun limiterRun ::
  "RateLimiter \<Rightarrow> (nat \<times> limiterCall) list \<Rightarrow> 'e world \<Rightarrow> (RateLimiter \<times> 'e world) option" where
  "limiterRun rl [] w = Some (rl, w)"
| "limiterRun rl ((d, call) # rest) w =
     (let w1 = World (clock w + int d) (env w)
      in case call of
           Acquire \<Rightarrow> limiterRun (snd (acquire (clock w1) rl)) rest w1
         | GetCurrentUsage \<Rightarrow> limiterRun (snd (getCurrentUsage (clock w1) rl)) rest w1
         | WaitForSlot \<Rightarrow>
             (case waitForSlot rl w1 of
                None \<Rightarrow> None
              | Some (rl', w') \<Rightarrow> limiterRun rl' rest w'))"

text \<open>
  What holds of a rate limiter at every moment of such a run: at most \<^verbatim>\<open>maxRequests\<close>
  timestamps are recorded, in the order of their admission, and none lies in the future.
\<close>

definition limiterInv :: "RateLimitConfig \<Rightarrow> RateLimiter \<Rightarrow> int \<Rightarrow> bool" where
  "limiterInv c rl now =
     (limiterConfig rl = c \<and> int (length (requests rl)) \<le> maxRequests c \<and>
      sorted (requests rl) \<and> list_all (\<lambda>timestamp. timestamp \<le> now) (requests rl))"

definition exampleRateLimit :: RateLimitConfig where
  "exampleRateLimit = \<lparr>maxRequests = 2, timeWindow = 1000\<rparr>"

subsection \<open>Idempotency scenarios\<close>

definition exampleResult :: EmailResult where
  "exampleResult =
     \<lparr>success = True, messageId = Some ''msg_1'', error = None, provider = ''ReliableProvider'',
      timestamp = 1\<rparr>"




subsection \<open>Service runs\<close>

text \<open>
  The calls of the public surface of \<^verbatim>\<open>EmailService\<close> that change it. \<open>SendEmail\<close> and
  \<open>EnqueueEmail\<close> carry the id that \<^verbatim>\<open>generateUUID()\<close> returns to them; \<open>ProcessNext\<close> is
  one run of the drain loop.
\<close>

datatype serviceCall =
    SendEmail EmailData "string option" string
  | EnqueueEmail EmailData int string
  | ProcessNext
  | StartQueueProcessing
  | StopQueueProcessing
  | ClearCache
  | ResetCircuitBreakers
  | ResetRateLimiter

text \<open>
  One call, then a sequence of calls, each after the given number of milliseconds. A
  launched pipeline runs to its end before the next call. \<open>None\<close>: a pipeline never
  settles.
\<close>

definition serviceStep ::
  "serviceCall \<Rightarrow> 'e EmailService \<Rightarrow> 'e world \<Rightarrow> ('e EmailService \<times> 'e world) option" where
  "serviceStep call s w =
     (case call of
        SendEmail e userId uuid \<Rightarrow> snd (snd (sendEmail e userId uuid s w))
      | EnqueueEmail e prio uuid \<Rightarrow> Some (snd (enqueueEmail e prio uuid s w), w)
      | ProcessNext \<Rightarrow>
          (case processNext s w of None \<Rightarrow> None | Some (d, s', w') \<Rightarrow> Some (s', w'))
      | StartQueueProcessing \<Rightarrow>
          (case startQueueProcessing s of Inl err \<Rightarrow> Some (s, w) | Inr s' \<Rightarrow> Some (s', w))
      | StopQueueProcessing \<Rightarrow> Some (stopQueueProcessing s, w)
      | ClearCache \<Rightarrow> Some (EmailService_clearCache s, w)
      | ResetCircuitBreakers \<Rightarrow> Some (resetCircuitBreakers s, w)
      | ResetRateLimiter \<Rightarrow> Some (resetRateLimiter s, w))"

fun serviceRun ::
  "'e EmailService \<Rightarrow> (nat \<times> serviceCall) list \<Rightarrow> 'e world
     \<Rightarrow> ('e EmailService \<times> 'e world) option" where
  "serviceRun s [] w = Some (s, w)"
| "serviceRun s ((d, call) # rest) w =
     (case serviceStep call s (World (clock w + int d) (env w)) of
        None \<Rightarrow> None
      | Some (s', w') \<Rightarrow> serviceRun s' rest w')"

text \<open>The call is a \<^verbatim>\<open>sendEmail\<close> whose generated id is \<open>i\<close>.\<close>

definition sendsWithId :: "string \<Rightarrow> serviceCall \<Rightarrow> bool" where
  "sendsWithId i call = (case call of SendEmail e userId uuid \<Rightarrow> uuid = i | _ \<Rightarrow> False)"

subsection \<open>Example services\<close>

text \<open>
  Three backends over an environment that counts the \<^verbatim>\<open>send\<close> calls made: one that
  delivers in 80 ms and names the message after its subject, one that throws, and one that
  resolves to a structured failure.
\<close>

definition reliableProvider :: "nat EmailProvider" where
  "reliableProvider =
     \<lparr>name = ''ReliableProvider'',
      send = (\<lambda>e w. (Inr \<lparr>success = True, messageId = Some (''msg_'' @ subject e), error = None,
                            provider = ''ReliableProvider'', timestamp = clock w + 80\<rparr>,
                       World (clock w + 80) (Suc (env w)))),
      isHealthy = (\<lambda>w. (Inr True, World (clock w + 50) (env w)))\<rparr>"



definition exampleConfig :: "nat EmailProvider list \<Rightarrow> nat EmailServiceConfig" where
  "exampleConfig ps =
     \<lparr>retry = exampleRetryConfig, rateLimit = exampleRateLimit,
      circuitBreaker = exampleBreakerConfig, providers = ps\<rparr>"

text \<open>A new service with the reliable backend alone.\<close>

definition reliableService :: "nat EmailService" where
  "reliableService = EmailService_new (exampleConfig [reliableProvider])"

definition otherEmail :: EmailData where
  "otherEmail =
     \<lparr>to = Single ''carol@example.com'', sender = ''noreply@example.com'',
      subject = ''Invoice'', body = ''Your invoice is attached'', html = None,
      cc = None, bcc = None, attachments = None\<rparr>"

subsection \<open>Failing backends\<close>



text \<open>A service that holds a cached outcome under the empty key.\<close>

definition cachedService :: "nat EmailService" where
  "cachedService =
     reliableService\<lparr>idempotencyService := \<lparr>cache = [[] \<mapsto> exampleResult], pendingRequests = {}\<rparr>\<rparr>"

definition queuedItem :: QueueItem where
  "queuedItem = \<lparr>itemId = ''q2'', email = otherEmail, priority = 0, createdAt = 3, retryCount = 0\<rparr>"


chapter \<open>Properties\<close>

section \<open>EmailQueue: insertion order\<close>






lemma queueAfterAB_ids: "map itemId (queue queueAfterAB) = [''a'', ''b'']"
  by (simp add: queueAfterAB_def enqueue_def insertWithPriority_def EmailQueue_new_def Let_def)




section \<open>CircuitBreaker: opening, failing fast, the trial\<close>






lemma execute_passes:
  "admit (clock w) cb = Inr cb1 \<Longrightarrow>
     fst (CircuitBreaker_execute cb operation w) = fst (operation w) \<and>
     snd (snd (CircuitBreaker_execute cb operation w)) = snd (operation w)"
  by (auto simp: CircuitBreaker_execute_def split: prod.splits sum.splits)




section \<open>RetryMechanism: delays and the number of invocations\<close>

lemma calculateDelay_formula:
  "1 \<le> n \<Longrightarrow>
     calculateDelay c n = min (initialDelay c * backoffMultiplier c ^ nat (n - 1)) (maxDelay c)"
  by (simp add: calculateDelay_def Let_def power_int_def)

lemma retry_from:
  "int n + 1 \<le> maxAttempts c \<Longrightarrow>
     \<exists>k. n + 1 \<le> k \<and> int k \<le> maxAttempts c \<and>
         (\<forall>i. n \<le> i \<and> i < k - 1 \<longrightarrow> isl (fst (nthAttempt c operation i w))) \<and>
         (\<not> isl (fst (nthAttempt c operation (k - 1) w)) \<or> int k = maxAttempts c) \<and>
         RetryMechanism_execute c operation (int n + 1) (backoffWorld c operation n w)
           = nthAttempt c operation (k - 1) w"
proof (induction "nat (maxAttempts c - (int n + 1))" arbitrary: n)
  case 0
  then have last: "int (n + 1) = maxAttempts c" by simp
  have "RetryMechanism_execute c operation (int n + 1) (backoffWorld c operation n w)
           = nthAttempt c operation n w"
    using last
    by (subst RetryMechanism_execute.simps) (auto simp: nthAttempt_def split: prod.splits sum.splits)
  with last show ?case
    by (intro exI[of _ "n + 1"]) auto
next
  case (Suc d)
  show ?case
  proof (cases "fst (nthAttempt c operation n w)")
    case (Inr r)
    then have "RetryMechanism_execute c operation (int n + 1) (backoffWorld c operation n w)
           = nthAttempt c operation n w"
      by (subst RetryMechanism_execute.simps) (auto simp: nthAttempt_def split: prod.splits sum.splits)
    with Inr Suc.prems show ?thesis
      by (intro exI[of _ "n + 1"]) auto
  next
    case (Inl err)
    from Suc.hyps(2) have more: "int (Suc n) + 1 \<le> maxAttempts c" "\<not> maxAttempts c \<le> int n + 1"
      by linarith+
    have d: "d = nat (maxAttempts c - (int (Suc n) + 1))" using Suc.hyps(2) by linarith
    from Suc.hyps(1)[OF d more(1)] obtain k where k:
      "Suc n + 1 \<le> k" "int k \<le> maxAttempts c"
      "\<forall>i. Suc n \<le> i \<and> i < k - 1 \<longrightarrow> isl (fst (nthAttempt c operation i w))"
      "\<not> isl (fst (nthAttempt c operation (k - 1) w)) \<or> int k = maxAttempts c"
      "RetryMechanism_execute c operation (int (Suc n) + 1) (backoffWorld c operation (Suc n) w)
           = nthAttempt c operation (k - 1) w"
      by blast
    have step: "RetryMechanism_execute c operation (int n + 1) (backoffWorld c operation n w)
       = RetryMechanism_execute c operation (int (Suc n) + 1) (backoffWorld c operation (Suc n) w)"
      using Inl more(2)
      by (subst RetryMechanism_execute.simps)
         (auto simp: nthAttempt_def add.commute split: prod.splits sum.splits)
    have fails: "\<forall>i. n \<le> i \<and> i < k - 1 \<longrightarrow> isl (fst (nthAttempt c operation i w))"
    proof (intro allI impI)
      fix i assume i: "n \<le> i \<and> i < k - 1"
      show "isl (fst (nthAttempt c operation i w))"
      proof (cases "i = n")
        case True
        with Inl show ?thesis by simp
      next
        case False
        with i k(3) show ?thesis by auto
      qed
    qed
    from k fails step show ?thesis
      by (intro exI[of _ k]) auto
  qed
qed

text \<open>
  C4. Let \<^verbatim>\<open>maxAttempts\<close> be at least 1. For every attempt number \<open>n \<ge> 1\<close> the delay is
  \<open>min (initialDelay \<times> backoffMultiplier ^ (n - 1)) maxDelay\<close>. For every operation and
  world there is a number \<open>k\<close> of invocations, \<open>1 \<le> k \<le> maxAttempts\<close>, such that the
  first \<open>k - 1\<close> invocations fail (each followed by its backoff sleep), invocation \<open>k\<close>
  succeeds or \<open>k = maxAttempts\<close>, and \<^verbatim>\<open>execute\<close> returns exactly the outcome of
  invocation \<open>k\<close> and the world it leaves: the first successful result, or the error of the
  final attempt as it was thrown. So \<open>k\<close> is the minimum of the attempts to the first
  success and \<^verbatim>\<open>maxAttempts\<close>.
\<close>

theorem retry_delay_and_invocations:
  assumes "1 \<le> maxAttempts c"
  shows "(1 \<le> n \<longrightarrow>
            calculateDelay c n
              = min (initialDelay c * backoffMultiplier c ^ nat (n - 1)) (maxDelay c)) \<and>
         (\<exists>k. 1 \<le> k \<and> int k \<le> maxAttempts c \<and>
              (\<forall>i. i < k - 1 \<longrightarrow> isl (fst (nthAttempt c operation i w))) \<and>
              (\<not> isl (fst (nthAttempt c operation (k - 1) w)) \<or> int k = maxAttempts c) \<and>
              RetryMechanism_execute c operation 1 w = nthAttempt c operation (k - 1) w)"
proof -
  have "int 0 + 1 \<le> maxAttempts c" using assms by simp
  from retry_from[OF this, of operation w]
  have "\<exists>k. 1 \<le> k \<and> int k \<le> maxAttempts c \<and>
              (\<forall>i. i < k - 1 \<longrightarrow> isl (fst (nthAttempt c operation i w))) \<and>
              (\<not> isl (fst (nthAttempt c operation (k - 1) w)) \<or> int k = maxAttempts c) \<and>
              RetryMechanism_execute c operation 1 w = nthAttempt c operation (k - 1) w"
    by simp
  then show ?thesis using calculateDelay_formula by blast
qed

lemma flakyOp_run:
  "RetryMechanism_execute exampleRetryConfig flakyOp 1 (World 0 0) = (Inr 1, World 102 2)"
  by (simp add: RetryMechanism_execute.simps flakyOp_def exampleRetryConfig_def sleep_def
        timerDelay_def calculateDelay_def)

lemma countingFailure_run:
  "RetryMechanism_execute exampleRetryConfig countingFailure 1 (World 0 0)
     = (Inl (Error ''3''), World 303 3)"
  by (simp add: RetryMechanism_execute.simps countingFailure_def exampleRetryConfig_def sleep_def
        timerDelay_def calculateDelay_def showNat.simps digitChar_def)

text \<open>
  Witness: at most 3 attempts, delays 100, 200, 400, ... capped at 1000. The operation
  that succeeds on its second invocation is invoked twice (its counter ends at 2, the
  clock at 1 + 100 + 1); the operation that always fails is invoked three times and the
  error of the third invocation comes back.
\<close>

theorem retry_delay_and_invocations_witness:
  "1 \<le> maxAttempts exampleRetryConfig \<and>
   calculateDelay exampleRetryConfig 3 = 400 \<and>
   calculateDelay exampleRetryConfig 5 = 1000 \<and>
   RetryMechanism_execute exampleRetryConfig flakyOp 1 (World 0 0) = (Inr 1, World 102 2) \<and>
   RetryMechanism_execute exampleRetryConfig flakyOp 1 (World 0 0)
     = nthAttempt exampleRetryConfig flakyOp 1 (World 0 0) \<and>
   RetryMechanism_execute exampleRetryConfig countingFailure 1 (World 0 0)
     = (Inl (Error ''3''), World 303 3) \<and>
   RetryMechanism_execute exampleRetryConfig countingFailure 1 (World 0 0)
     = nthAttempt exampleRetryConfig countingFailure 2 (World 0 0)"
proof -
  have h: "1 \<le> maxAttempts exampleRetryConfig"
    by (simp add: exampleRetryConfig_def)
  have d3: "calculateDelay exampleRetryConfig 3 = 400"
    using retry_delay_and_invocations[OF h, of 3 flakyOp "World 0 0"] by (simp add: exampleRetryConfig_def)
  have d5: "calculateDelay exampleRetryConfig 5 = 1000"
    using retry_delay_and_invocations[OF h, of 5 countingFailure "World 0 0"] by (simp add: exampleRetryConfig_def)
  have n1: "nthAttempt exampleRetryConfig flakyOp 1 (World 0 0) = (Inr 1, World 102 2)"
    by (simp add: nthAttempt_def flakyOp_def exampleRetryConfig_def sleep_def
        timerDelay_def calculateDelay_def)
  have n2: "nthAttempt exampleRetryConfig countingFailure 2 (World 0 0)
              = (Inl (Error ''3''), World 303 3)"
    by (simp add: nthAttempt_def countingFailure_def exampleRetryConfig_def sleep_def
        timerDelay_def calculateDelay_def showNat.simps digitChar_def numeral_2_eq_2)
  show ?thesis using h d3 d5 n1 n2 flakyOp_run countingFailure_run by simp
qed

section \<open>RateLimiter: usage bound and expiry\<close>

lemma timerDelay_pos: "1 \<le> timerDelay ms"
  by (simp add: timerDelay_def)

lemma limiterInv_new: "0 \<le> maxRequests c \<Longrightarrow> limiterInv c (RateLimiter_new c) now"
  by (simp add: limiterInv_def RateLimiter_new_def)

lemma limiterInv_later: "limiterInv c rl now \<Longrightarrow> now \<le> now' \<Longrightarrow> limiterInv c rl now'"
  by (auto simp: limiterInv_def list_all_iff)

lemma limiterInv_purge: "limiterInv c rl now \<Longrightarrow> limiterInv c (purge t rl) now"
proof -
  assume a: "limiterInv c rl now"
  have "int (length (requests (purge t rl))) \<le> int (length (requests rl))"
    by (simp add: purge_def)
  with a have l: "int (length (requests (purge t rl))) \<le> maxRequests c"
    unfolding limiterInv_def by linarith
  from a have "limiterConfig (purge t rl) = c" "sorted (requests (purge t rl))"
    "list_all (\<lambda>timestamp. timestamp \<le> now) (requests (purge t rl))"
    by (auto simp: limiterInv_def purge_def list_all_iff sorted_wrt_filter)
  with l show ?thesis unfolding limiterInv_def by blast
qed

lemma limiterInv_acquire:
  assumes "limiterInv c rl now"
  shows "limiterInv c (snd (acquire now rl)) now"
proof -
  have p: "limiterInv c (purge now rl) now" by (rule limiterInv_purge[OF assms])
  then show ?thesis
    by (auto simp: acquire_def Let_def limiterInv_def list_all_iff sorted_append)
qed

lemma limiterInv_getCurrentUsage:
  "limiterInv c rl now \<Longrightarrow> limiterInv c (snd (getCurrentUsage t rl)) now"
  by (simp add: getCurrentUsage_def Let_def limiterInv_purge)

lemma waitForSlot_inv:
  assumes "waitForSlot rl w = Some y"
  shows "limiterInv c rl (clock w) \<longrightarrow>
       limiterInv c (fst y) (clock (snd y)) \<and> env (snd y) = env w \<and> clock w \<le> clock (snd y)"
proof (rule waitForSlot.raw_induct[OF _ assms,
    where P = "\<lambda>rl w y. limiterInv c rl (clock w) \<longrightarrow>
       limiterInv c (fst y) (clock (snd y)) \<and> env (snd y) = env w \<and> clock w \<le> clock (snd y)"])
  fix waitForSlot rl w y
  assume 1: "\<And>rl w y. waitForSlot rl w = Some y \<Longrightarrow> limiterInv c rl (clock w) \<longrightarrow>
       limiterInv c (fst y) (clock (snd y)) \<and> env (snd y) = env w \<and> clock w \<le> clock (snd y)"
    "(let a = acquire (clock w) rl
      in if fst a then Some (snd a, w)
         else case minimum (requests (snd a)) of
              None \<Rightarrow> waitForSlot (snd a) (sleep 1 w)
              | Some oldestRequest \<Rightarrow>
                  let waitTime = timeWindow (limiterConfig (snd a)) - (clock w - oldestRequest)
                  in if 0 < waitTime
                     then waitForSlot (snd a) (sleep (real_of_int waitTime) w)
                     else waitForSlot (snd a) w) = Some y"
  show "limiterInv c rl (clock w) \<longrightarrow>
       limiterInv c (fst y) (clock (snd y)) \<and> env (snd y) = env w \<and> clock w \<le> clock (snd y)"
  proof
    assume inv: "limiterInv c rl (clock w)"
    let ?a = "acquire (clock w) rl"
    have inv1: "limiterInv c (snd ?a) (clock w)" by (rule limiterInv_acquire[OF inv])
    have sl: "limiterInv c (snd ?a) (clock (sleep ms w)) \<and> env (sleep ms w) = env w \<and>
              clock w \<le> clock (sleep ms w)" for ms
      using limiterInv_later[OF inv1, of "clock (sleep ms w)"] timerDelay_pos[of ms]
      by (simp add: sleep_def)
    show "limiterInv c (fst y) (clock (snd y)) \<and> env (snd y) = env w \<and> clock w \<le> clock (snd y)"
    proof (cases "fst ?a")
      case True
      with 1(2) inv1 show ?thesis by (auto simp: Let_def)
    next
      case False
      show ?thesis
      proof (cases "minimum (requests (snd ?a))")
        case None
        with False 1(2) have "waitForSlot (snd ?a) (sleep 1 w) = Some y" by (simp add: Let_def)
        from 1(1)[OF this] sl[of 1] show ?thesis by auto
      next
        case (Some oldest)
        let ?wt = "timeWindow (limiterConfig (snd ?a)) - (clock w - oldest)"
        show ?thesis
        proof (cases "0 < ?wt")
          case True
          with False Some 1(2) have "waitForSlot (snd ?a) (sleep (real_of_int ?wt) w) = Some y"
            by (simp add: Let_def)
          from 1(1)[OF this] sl[of "real_of_int ?wt"] show ?thesis by auto
        next
          case f: False
          with False Some 1(2) have "waitForSlot (snd ?a) w = Some y" by (simp add: Let_def)
          from 1(1)[OF this] inv1 show ?thesis by auto
        qed
      qed
    qed
  qed
qed

lemma limiterRun_inv:
  "limiterInv c rl (clock w) \<Longrightarrow> limiterRun rl calls w = Some (rl', w')
     \<Longrightarrow> limiterInv c rl' (clock w')"
proof (induction calls arbitrary: rl w)
  case Nil
  then show ?case by simp
next
  case (Cons x calls)
  obtain d call where x: "x = (d, call)" by (cases x)
  let ?w1 = "World (clock w + int d) (env w)"
  have inv1: "limiterInv c rl (clock ?w1)"
    using limiterInv_later[OF Cons.prems(1), of "clock w + int d"] by simp
  show ?case
  proof (cases call)
    case Acquire
    with Cons.prems(2) x have "limiterRun (snd (acquire (clock ?w1) rl)) calls ?w1 = Some (rl', w')"
      by (simp add: Let_def)
    from Cons.IH[OF limiterInv_acquire[OF inv1] this] show ?thesis .
  next
    case GetCurrentUsage
    with Cons.prems(2) x
    have "limiterRun (snd (getCurrentUsage (clock ?w1) rl)) calls ?w1 = Some (rl', w')"
      by (simp add: Let_def)
    from Cons.IH[OF limiterInv_getCurrentUsage[OF inv1] this] show ?thesis .
  next
    case WaitForSlot
    with Cons.prems(2) x obtain rl1 w1 where
      ws: "waitForSlot rl ?w1 = Some (rl1, w1)" and r: "limiterRun rl1 calls w1 = Some (rl', w')"
      by (auto simp: Let_def split: option.splits)
    from waitForSlot_inv[OF ws, of c] inv1 have "limiterInv c rl1 (clock w1)" by simp
    from Cons.IH[OF this r] show ?thesis .
  qed
qed

lemma sorted_le_last: "sorted xs \<Longrightarrow> x \<in> set xs \<Longrightarrow> x \<le> last xs"
  by (induction xs) auto

lemma usage_le_length: "fst (getCurrentUsage now rl) \<le> int (length (requests rl))"
  by (simp add: getCurrentUsage_def purge_def Let_def)

lemma usage_zero:
  "list_all (\<lambda>timestamp. timestamp + timeWindow (limiterConfig rl) \<le> now) (requests rl)
     \<Longrightarrow> fst (getCurrentUsage now rl) = 0"
  by (auto simp: getCurrentUsage_def purge_def Let_def list_all_iff filter_empty_conv)

text \<open>
  C7. Let \<^verbatim>\<open>maxRequests\<close> be at least 0, and let the rate limiter \<open>rl\<close> and the world \<open>w\<close>
  be what a sequence of \<^verbatim>\<open>acquire\<close>, \<^verbatim>\<open>waitForSlot\<close> and \<^verbatim>\<open>getCurrentUsage\<close> calls on a
  new rate limiter leaves. Then the usage that \<^verbatim>\<open>getCurrentUsage\<close> reports at any time,
  and the number of recorded timestamps, are at most \<^verbatim>\<open>maxRequests\<close>; \<^verbatim>\<open>acquire\<close> admits and
  records the current time exactly when the count after the purge is below
  \<^verbatim>\<open>maxRequests\<close>, and otherwise returns false after the purge alone; and once
  \<^verbatim>\<open>timeWindow\<close> has passed since the end of the run, or since the latest recorded
  admission, \<^verbatim>\<open>getCurrentUsage\<close> returns 0.
\<close>

theorem rate_limiter_usage_bounded:
  assumes "0 \<le> maxRequests c"
    and "limiterRun (RateLimiter_new c) calls w0 = Some (rl, w)"
  shows "fst (getCurrentUsage now rl) \<le> maxRequests c \<and>
         int (length (requests rl)) \<le> maxRequests c \<and>
         acquire now rl =
           (if int (length (requests (purge now rl))) < maxRequests c
            then (True, (purge now rl)\<lparr>requests := requests (purge now rl) @ [now]\<rparr>)
            else (False, purge now rl)) \<and>
         (clock w + timeWindow c \<le> now \<longrightarrow> fst (getCurrentUsage now rl) = 0) \<and>
         (requests rl \<noteq> [] \<and> last (requests rl) + timeWindow c \<le> now \<longrightarrow>
            fst (getCurrentUsage now rl) = 0)"
proof -
  have inv: "limiterInv c rl (clock w)"
    using limiterRun_inv[OF limiterInv_new[OF assms(1)] assms(2)] .
  then have cfg: "limiterConfig rl = c" and len: "int (length (requests rl)) \<le> maxRequests c"
    and srt: "sorted (requests rl)" and past: "list_all (\<lambda>timestamp. timestamp \<le> clock w) (requests rl)"
    by (simp_all add: limiterInv_def)
  have u: "fst (getCurrentUsage now rl) \<le> maxRequests c"
    using usage_le_length[of now rl] len by linarith
  have a: "acquire now rl =
           (if int (length (requests (purge now rl))) < maxRequests c
            then (True, (purge now rl)\<lparr>requests := requests (purge now rl) @ [now]\<rparr>)
            else (False, purge now rl))"
    using cfg by (auto simp: acquire_def Let_def purge_def)
  have z1: "fst (getCurrentUsage now rl) = 0" if "clock w + timeWindow c \<le> now"
    using past that cfg by (intro usage_zero) (auto simp: list_all_iff)
  have z2: "fst (getCurrentUsage now rl) = 0"
    if "requests rl \<noteq> [] \<and> last (requests rl) + timeWindow c \<le> now"
  proof -
    have "\<forall>x \<in> set (requests rl). x \<le> last (requests rl)"
      using srt sorted_le_last by blast
    with that cfg show ?thesis by (intro usage_zero) (fastforce simp: list_all_iff)
  qed
  from u len a z1 z2 show ?thesis by simp
qed


text \<open>
  \<^verbatim>\<open>waitForSlot\<close> returns when \<^verbatim>\<open>maxRequests\<close> is at least 1: every sleep brings each
  recorded timestamp at least 1 ms closer to its expiry.
\<close>

lemma fold_min_in: "fold min xs (x::int) \<in> set (x # xs)"
proof (induction xs arbitrary: x)
  case Nil
  then show ?case by simp
next
  case (Cons a xs)
  from Cons.IH[of "min a x"] show ?case by (auto simp: min_def split: if_splits)
qed

lemma minimum_in: "minimum xs = Some m \<Longrightarrow> m \<in> set xs"
  using fold_min_in by (cases xs) (auto simp: minimum_def)

lemma minimum_None: "minimum xs = None \<longleftrightarrow> xs = []"
  by (cases xs) (auto simp: minimum_def)

lemma waitForSlot_terminates:
  assumes "1 \<le> maxRequests (limiterConfig rl)"
  shows "\<exists>y. waitForSlot rl w = Some y"
  using assms
proof (induction "sum_list (map (\<lambda>ts. nat (ts + timeWindow (limiterConfig rl) - clock w)) (requests rl))"
    arbitrary: rl w rule: less_induct)
  case less
  let ?tw = "timeWindow (limiterConfig rl)"
  let ?a = "acquire (clock w) rl"
  let ?L = "requests (purge (clock w) rl)"
  show ?case
  proof (cases "fst ?a")
    case True
    then show ?thesis by (subst waitForSlot.simps) (simp add: Let_def)
  next
    case False
    then have rl1: "snd ?a = purge (clock w) rl" and full: "?L \<noteq> []"
      using less.prems by (auto simp: acquire_def Let_def purge_def split: if_splits)
    have cfg: "limiterConfig (purge (clock w) rl) = limiterConfig rl" by (simp add: purge_def)
    from full obtain m where m: "minimum ?L = Some m"
      using minimum_None[of ?L] by (cases "minimum ?L") auto
    from minimum_in[OF m] have fresh: "clock w - m < ?tw" by (simp add: purge_def)
    then have wt: "0 < ?tw - (clock w - m)" by simp
    let ?w' = "sleep (real_of_int (?tw - (clock w - m))) w"
    have later: "clock w < clock ?w'"
      using timerDelay_pos[of "real_of_int (?tw - (clock w - m))"] by (simp add: sleep_def)
    have unfold: "waitForSlot rl w = waitForSlot (purge (clock w) rl) ?w'"
      using False m wt by (subst waitForSlot.simps) (simp add: Let_def rl1 cfg)
    have "sum_list (map (\<lambda>ts. nat (ts + ?tw - clock ?w')) ?L)
            < sum_list (map (\<lambda>ts. nat (ts + ?tw - clock w)) ?L)"
    proof (rule sum_list_strict_mono[OF full])
      fix ts assume "ts \<in> set ?L"
      then have "clock w - ts < ?tw" by (simp add: purge_def)
      with later show "nat (ts + ?tw - clock ?w') < nat (ts + ?tw - clock w)" by linarith
    qed
    also have "\<dots> \<le> sum_list (map (\<lambda>ts. nat (ts + ?tw - clock w)) (requests rl))"
      unfolding purge_def by (simp add: sum_list_filter_le_nat)
    finally have "\<exists>y. waitForSlot (purge (clock w) rl) ?w' = Some y"
      using less.hyps[of "purge (clock w) rl" ?w'] less.prems by (simp add: cfg)
    with unfold show ?thesis by simp
  qed
qed

lemma example_run:
  "limiterRun (RateLimiter_new exampleRateLimit)
      [(0, Acquire), (10, Acquire), (10, WaitForSlot), (5, GetCurrentUsage)] (World 0 ())
    = Some (\<lparr>requests = [10, 1000], limiterConfig = exampleRateLimit\<rparr>, World 1005 ())"
  by (simp add: RateLimiter_new_def exampleRateLimit_def acquire_def purge_def getCurrentUsage_def
        waitForSlot.simps minimum_def sleep_def timerDelay_def Let_def)


text \<open>
  Witness: at most 2 requests per 1000 ms. Two admissions at 0 and 10; \<^verbatim>\<open>waitForSlot\<close> at
  20 sleeps until 1000, when the first request has expired, and is admitted; the usage at
  1005 is 2; an \<^verbatim>\<open>acquire\<close> at 1005 is refused; at 2000, a window after the last admission,
  the usage is 0.
\<close>

theorem rate_limiter_usage_bounded_witness:
  "0 \<le> maxRequests exampleRateLimit \<and>
   limiterRun (RateLimiter_new exampleRateLimit)
      [(0, Acquire), (10, Acquire), (10, WaitForSlot), (5, GetCurrentUsage)] (World 0 ())
    = Some (\<lparr>requests = [10, 1000], limiterConfig = exampleRateLimit\<rparr>, World 1005 ()) \<and>
   fst (getCurrentUsage 1005 \<lparr>requests = [10, 1000], limiterConfig = exampleRateLimit\<rparr>) = 2 \<and>
   fst (acquire 1005 \<lparr>requests = [10, 1000], limiterConfig = exampleRateLimit\<rparr>) = False \<and>
   fst (getCurrentUsage 2000 \<lparr>requests = [10, 1000], limiterConfig = exampleRateLimit\<rparr>) = 0"
proof -
  let ?rl = "\<lparr>requests = [10, 1000], limiterConfig = exampleRateLimit\<rparr>"
  have h: "0 \<le> maxRequests exampleRateLimit" by (simp add: exampleRateLimit_def)
  note t = rate_limiter_usage_bounded[OF h example_run]
  have z: "fst (getCurrentUsage 2000 ?rl) = 0"
    using t[of 2000] by (simp add: exampleRateLimit_def)
  have a: "fst (acquire 1005 ?rl) = False"
    using t[of 1005] by (simp add: exampleRateLimit_def purge_def)
  have u: "fst (getCurrentUsage 1005 ?rl) = 2"
    by (simp add: getCurrentUsage_def purge_def exampleRateLimit_def Let_def)
  show ?thesis using h example_run z a u by simp
qed

section \<open>IdempotencyService: cache hit, miss and in-flight duplicate\<close>

lemma sleep_100: "sleep 100 w = World (clock w + 100) (env w)"
  by (simp add: sleep_def timerDelay_def)

text \<open>
  With nothing cached for the key and the key pending, and no other task to change that,
  the poll loop ends in the timeout error once 30000 ms have passed since its start.
\<close>

lemma waitForPendingRequest_timeout:
  "cache svc key = None \<Longrightarrow> key \<in> pendingRequests svc \<Longrightarrow>
     waitForPendingRequest key svc startTime w =
       (Inl (Error ''Timeout waiting for pending request''),
        World (if clock w - startTime < 30000
               then clock w + 100 * ((30000 - (clock w - startTime) + 99) div 100)
               else clock w) (env w))"
proof (induction key svc startTime w rule: waitForPendingRequest.induct)
  case (1 key svc startTime w)
  show ?case
  proof (cases "clock w - startTime < 30000")
    case False
    then show ?thesis by (subst waitForPendingRequest.simps) simp
  next
    case True
    have step: "waitForPendingRequest key svc startTime w =
                waitForPendingRequest key svc startTime (sleep 100 w)"
      using True 1(2,3) by (subst waitForPendingRequest.simps) simp
    have ih: "waitForPendingRequest key svc startTime (sleep 100 w) =
       (Inl (Error ''Timeout waiting for pending request''),
        World (if clock (sleep 100 w) - startTime < 30000
               then clock (sleep 100 w) + 100 * ((30000 - (clock (sleep 100 w) - startTime) + 99) div 100)
               else clock (sleep 100 w)) (env (sleep 100 w)))"
      using 1(1)[OF True _ _ 1(2,3)] 1(2,3) by simp
    have ar: "(if clock w + 100 - startTime < 30000
               then clock w + 100 + 100 * ((30000 - (clock w + 100 - startTime) + 99) div 100)
               else clock w + 100)
            = clock w + 100 * ((30000 - (clock w - startTime) + 99) div 100)"
    proof (cases "clock w + 100 - startTime < 30000")
      case t: True
      have "30000 - (clock w - startTime) + 99 = (30000 - (clock w + 100 - startTime) + 99) + 100"
        by simp
      then have "(30000 - (clock w - startTime) + 99) div 100
              = (30000 - (clock w + 100 - startTime) + 99) div 100 + 1"
        by (simp only: div_add_self2)
      with t show ?thesis by simp
    next
      case f: False
      define y where "y = 30000 - (clock w - startTime) + 99 - 100"
      have y: "0 \<le> y" "y < 100" using True f by (simp_all add: y_def)
      have "30000 - (clock w - startTime) + 99 = y + 100" by (simp add: y_def)
      then have "(30000 - (clock w - startTime) + 99) div 100 = (y + 100) div 100" by simp
      also have "\<dots> = y div 100 + 1" by (simp only: div_add_self2)
      also have "\<dots> = 1" using y by simp
      finally show ?thesis using f by simp
    qed
    have "waitForPendingRequest key svc startTime w =
       (Inl (Error ''Timeout waiting for pending request''),
        World (if clock (sleep 100 w) - startTime < 30000
               then clock (sleep 100 w) + 100 * ((30000 - (clock (sleep 100 w) - startTime) + 99) div 100)
               else clock (sleep 100 w)) (env (sleep 100 w)))"
      using step ih by (rule trans)
    then have "waitForPendingRequest key svc startTime w =
       (Inl (Error ''Timeout waiting for pending request''),
        World (if clock w + 100 - startTime < 30000
               then clock w + 100 + 100 * ((30000 - (clock w + 100 - startTime) + 99) div 100)
               else clock w + 100) (env w))"
      by (simp only: sleep_100 world.sel)
    then have "waitForPendingRequest key svc startTime w =
       (Inl (Error ''Timeout waiting for pending request''),
        World (clock w + 100 * ((30000 - (clock w - startTime) + 99) div 100)) (env w))"
      by (simp only: ar)
    then show ?thesis using True by (simp only: if_True)
  qed
qed




section \<open>IdempotencyService: key generation and the submitted message\<close>

lemma generateKey_message:
  "snd (generateKey e idempotencyKey userId) = (if truthy idempotencyKey then e else sortedInPlace e)"
  by (simp add: generateKey_def Let_def)

lemma sort_example:
  "sort [''zoe@example.com'', ''adam@example.com''] = [''adam@example.com'', ''zoe@example.com'']"
  by simp

lemma sendEmail_message: "fst (snd (sendEmail e userId uuid s w)) = snd (generateKey e userId None)"
  by (simp add: sendEmail_def Let_def)

text \<open>
  C8. The claim says that submitting a message leaves its \<^verbatim>\<open>to\<close>, \<^verbatim>\<open>cc\<close> and \<^verbatim>\<open>bcc\<close>
  arrays and their element order unchanged. The code at the message with recipients
  \<open>[zoe, adam]\<close>: \<^verbatim>\<open>generateKey\<close> without an explicit key, and \<^verbatim>\<open>sendEmail\<close> without a
  \<^verbatim>\<open>userId\<close>, leave the message with recipients \<open>[adam, zoe]\<close>; \<^verbatim>\<open>sendEmail\<close> with a
  \<^verbatim>\<open>userId\<close> returns before the sort and leaves the message as it was.
\<close>

theorem generateKey_sorts_message_in_place:
  "to exampleEmail = Multiple [''zoe@example.com'', ''adam@example.com''] \<and>
   to (snd (generateKey exampleEmail None None))
     = Multiple [''adam@example.com'', ''zoe@example.com''] \<and>
   to (fst (snd (sendEmail exampleEmail None uuid s w)))
     = Multiple [''adam@example.com'', ''zoe@example.com''] \<and>
   fst (snd (sendEmail exampleEmail None uuid s w)) \<noteq> exampleEmail \<and>
   fst (snd (sendEmail exampleEmail (Some ''user123'') uuid s w)) = exampleEmail"
proof -
  have a: "to exampleEmail = Multiple [''zoe@example.com'', ''adam@example.com'']"
    by (simp add: exampleEmail_def)
  have b: "to (snd (generateKey exampleEmail None None))
     = Multiple [''adam@example.com'', ''zoe@example.com'']"
    by (simp add: generateKey_message truthy_def sortedInPlace_def a sort_example)
  have c: "snd (generateKey exampleEmail (Some ''user123'') None) = exampleEmail"
    by (simp add: generateKey_message truthy_def)
  from a b have d: "snd (generateKey exampleEmail None None) \<noteq> exampleEmail" by auto
  from a b c d show ?thesis by (simp add: sendEmail_message)
qed

section \<open>EmailService: the status table\<close>

lemma updateStatus_absent:
  "statusTracking s emailId = None \<Longrightarrow> updateStatus emailId st res err now s = s"
  by (simp add: updateStatus_def)

lemma updateStatus_fields:
  "config (updateStatus emailId st res err now s) = config s"
  "circuitBreakers (updateStatus emailId st res err now s) = circuitBreakers s"
  "rateLimiter (updateStatus emailId st res err now s) = rateLimiter s"
  "idempotencyService (updateStatus emailId st res err now s) = idempotencyService s"
  "emailQueue (updateStatus emailId st res err now s) = emailQueue s"
  by (simp_all add: updateStatus_def Let_def split: option.splits)

lemma updateStatus_other:
  "i \<noteq> emailId \<Longrightarrow>
     statusTracking (updateStatus emailId st res err now s) i = statusTracking s i"
  by (simp add: updateStatus_def Let_def split: option.splits)

lemma updateStatus_dom:
  "dom (statusTracking (updateStatus emailId st res err now s)) = dom (statusTracking s)"
  by (auto simp: updateStatus_def Let_def split: option.splits if_splits)

lemma processEmail_dom:
  assumes "processEmail emailId e key userId s w = Some (r, s', w')"
  shows "dom (statusTracking s') = dom (statusTracking s)"
  using assms
  by (clarsimp simp: processEmail_def Let_def split: option.splits prod.splits sum.splits)
     (simp_all add: updateStatus_dom)

lemma sendEmail_dom:
  assumes "snd (snd (sendEmail e userId uuid s w)) = Some (s', w')"
  shows "dom (statusTracking s') = insert uuid (dom (statusTracking s))"
proof -
  let ?s1 = "s\<lparr>statusTracking := (statusTracking s)(uuid \<mapsto>
                      initialStatus uuid (maxAttempts (retry (config s))) (clock w))\<rparr>"
  let ?k = "generateKey e userId None"
  from assms obtain r s2 w2 where p: "processEmail uuid (snd ?k) (fst ?k) userId ?s1 w = Some (r, s2, w2)"
    and s': "dom (statusTracking s') = dom (statusTracking s2)"
    by (clarsimp simp: sendEmail_def Let_def updateStatus_dom
          split: option.splits prod.splits sum.splits)
  from processEmail_dom[OF p] s' show ?thesis by simp
qed

lemma processNext_dom:
  assumes "processNext s w = Some (d, s', w')"
  shows "dom (statusTracking s') = dom (statusTracking s)"
proof (cases "\<not> processing (emailQueue s) \<or> \<not> hasProcessor (emailQueue s)")
  case True
  with assms show ?thesis by (simp add: processNext_def)
next
  case False
  show ?thesis
  proof (cases "queue (emailQueue s)")
    case Nil
    with False assms show ?thesis by (simp add: processNext_def dequeue_def)
  next
    case (Cons item rest)
    let ?s0 = "s\<lparr>emailQueue := (emailQueue s)\<lparr>queue := rest\<rparr>\<rparr>"
    from False Cons assms obtain r s2 w2 where
      h: "queueHandler item ?s0 w = Some (r, s2, w2)" and
      s': "statusTracking s' = statusTracking s2"
      by (auto simp: processNext_def dequeue_def split: option.splits prod.splits sum.splits if_splits)
    from processEmail_dom[OF h[unfolded queueHandler_def]] s' show ?thesis by simp
  qed
qed

lemma serviceStep_absent:
  assumes "statusTracking s i = None" "\<not> sendsWithId i call"
    and "serviceStep call s w = Some (s', w')"
  shows "statusTracking s' i = None"
proof (cases call)
  case (SendEmail e userId uuid)
  with assms(2) have ne: "uuid \<noteq> i" by (simp add: sendsWithId_def)
  from assms(3) SendEmail have "snd (snd (sendEmail e userId uuid s w)) = Some (s', w')"
    by (simp add: serviceStep_def)
  from sendEmail_dom[OF this] assms(1) ne show ?thesis by (metis domIff insertE)
next
  case (EnqueueEmail e prio uuid)
  with assms show ?thesis
    by (auto simp: serviceStep_def enqueueEmail_def split: prod.splits)
next
  case ProcessNext
  with assms(3) obtain d where "processNext s w = Some (d, s', w')"
    by (auto simp: serviceStep_def split: option.splits)
  from processNext_dom[OF this] assms(1) show ?thesis by (metis domIff)
next
  case StartQueueProcessing
  with assms show ?thesis
    by (auto simp: serviceStep_def startQueueProcessing_def split: sum.splits)
next
  case StopQueueProcessing
  with assms show ?thesis by (auto simp: serviceStep_def stopQueueProcessing_def)
next
  case ClearCache
  with assms show ?thesis by (auto simp: serviceStep_def EmailService_clearCache_def)
next
  case ResetCircuitBreakers
  with assms show ?thesis by (auto simp: serviceStep_def resetCircuitBreakers_def)
next
  case ResetRateLimiter
  with assms show ?thesis by (auto simp: serviceStep_def resetRateLimiter_def)
qed

lemma serviceRun_absent:
  "statusTracking s i = None \<Longrightarrow> \<forall>x \<in> set calls. \<not> sendsWithId i (snd x)
     \<Longrightarrow> serviceRun s calls w = Some (s', w') \<Longrightarrow> statusTracking s' i = None"
proof (induction calls arbitrary: s w)
  case Nil
  then show ?case by simp
next
  case (Cons x calls)
  obtain d call where x: "x = (d, call)" by (cases x)
  from Cons.prems(3) x obtain s1 w1 where
    st: "serviceStep call s (World (clock w + int d) (env w)) = Some (s1, w1)" and
    rn: "serviceRun s1 calls w1 = Some (s', w')"
    by (auto split: option.splits)
  from Cons.prems(2) x have ns: "\<not> sendsWithId i call" by simp
  from serviceStep_absent[OF Cons.prems(1) ns st] have "statusTracking s1 i = None" .
  from Cons.IH[OF this _ rn] Cons.prems(2) show ?case by simp
qed

text \<open>
  C10. Let no status record exist for the id \<open>uuid\<close> that \<^verbatim>\<open>generateUUID()\<close> hands to
  \<^verbatim>\<open>enqueueEmail\<close>. Then \<^verbatim>\<open>enqueueEmail\<close> returns \<open>uuid\<close> and leaves the status table as it
  was; and after any further sequence of calls of the service (drain runs that process the
  queued email, other submissions, resets) in which no \<^verbatim>\<open>sendEmail\<close> draws the same id,
  \<^verbatim>\<open>getEmailStatus(uuid)\<close> is still undefined and every \<^verbatim>\<open>updateStatus\<close> for \<open>uuid\<close> leaves
  the service as it is.
\<close>

theorem queued_id_never_has_status:
  assumes "getEmailStatus s uuid = None"
    and "\<forall>x \<in> set calls. \<not> sendsWithId uuid (snd x)"
    and "serviceRun (snd (enqueueEmail e prio uuid s w)) calls w = Some (s', w')"
  shows "fst (enqueueEmail e prio uuid s w) = uuid \<and>
         statusTracking (snd (enqueueEmail e prio uuid s w)) = statusTracking s \<and>
         getEmailStatus s' uuid = None \<and>
         updateStatus uuid st res err now s' = s'"
proof -
  have a: "fst (enqueueEmail e prio uuid s w) = uuid"
    by (simp add: enqueueEmail_def enqueue_def Let_def)
  have b: "statusTracking (snd (enqueueEmail e prio uuid s w)) = statusTracking s"
    by (simp add: enqueueEmail_def enqueue_def Let_def)
  from assms(1) b have "statusTracking (snd (enqueueEmail e prio uuid s w)) uuid = None"
    by (simp add: getEmailStatus_def)
  from serviceRun_absent[OF this assms(2) assms(3)] have c: "statusTracking s' uuid = None" .
  from a b c updateStatus_absent[OF c] show ?thesis by (simp add: getEmailStatus_def)
qed


lemma reliable_drain_run:
  "\<exists>s'. serviceRun (snd (enqueueEmail exampleEmail 0 ''q1'' reliableService (World 0 0)))
          [(0, StartQueueProcessing), (5, ProcessNext), (10, ProcessNext)] (World 0 0)
        = Some (s', World 95 1) \<and> queue (emailQueue s') = []"
  by (simp add: reliableService_def enqueueEmail_def enqueue_def insertWithPriority_def
     EmailService_new_def exampleConfig_def
     reliableProvider_def EmailQueue_new_def serviceStep_def startQueueProcessing_def startProcessing_def
     processNext_def dequeue_def queueHandler_def processEmail_def updateStatus_def waitForSlot.simps
     acquire_def purge_def RateLimiter_new_def exampleRateLimit_def IdempotencyService_execute_def
     IdempotencyService_new_def withBreakers_def sendWithFallback_def CircuitBreaker_execute_def admit_def
     CircuitBreaker_new_def RetryMechanism_execute.simps onSuccess_def exampleRetryConfig_def Let_def)

text \<open>
  Witness: a new service; \<^verbatim>\<open>enqueueEmail\<close> returns \<open>q1\<close>; the drain starts and runs twice.
  The backend has sent the email (its counter is 1, the clock is at 95, the queue is
  empty), and there is no status record for \<open>q1\<close>.
\<close>

theorem queued_id_never_has_status_witness:
  "getEmailStatus reliableService ''q1'' = None \<and>
   list_all (\<lambda>x. \<not> sendsWithId ''q1'' (snd x))
     [(0, StartQueueProcessing), (5, ProcessNext), (10, ProcessNext)] \<and>
   (\<exists>s'. serviceRun (snd (enqueueEmail exampleEmail 0 ''q1'' reliableService (World 0 0)))
            [(0, StartQueueProcessing), (5, ProcessNext), (10, ProcessNext)] (World 0 0)
          = Some (s', World 95 1) \<and>
        queue (emailQueue s') = [] \<and> getEmailStatus s' ''q1'' = None)"
proof -
  let ?calls = "[(0, StartQueueProcessing), (5, ProcessNext), (10, ProcessNext)]"
  have h1: "getEmailStatus reliableService ''q1'' = None"
    by (simp add: getEmailStatus_def reliableService_def EmailService_new_def)
  have h2: "\<forall>x \<in> set ?calls. \<not> sendsWithId ''q1'' (snd x)"
    by (simp add: sendsWithId_def)
  from reliable_drain_run obtain s' where
    r: "serviceRun (snd (enqueueEmail exampleEmail 0 ''q1'' reliableService (World 0 0))) ?calls (World 0 0)
          = Some (s', World 95 1)"
    and q: "queue (emailQueue s') = []"
    by blast
  from queued_id_never_has_status[OF h1 h2 r] have "getEmailStatus s' ''q1'' = None" by simp
  with h1 h2 r q show ?thesis by (auto simp: list_all_iff)
qed

section \<open>EmailService: the dispatch pipeline\<close>

lemma waitForSlot_frame:
  assumes "waitForSlot rl w = Some y"
  shows "env (snd y) = env w \<and> clock w \<le> clock (snd y) \<and> limiterConfig (fst y) = limiterConfig rl"
proof (rule waitForSlot.raw_induct[OF _ assms,
    where P = "\<lambda>rl w y. env (snd y) = env w \<and> clock w \<le> clock (snd y) \<and>
                 limiterConfig (fst y) = limiterConfig rl"])
  fix waitForSlot rl w y
  assume 1: "\<And>rl w y. waitForSlot rl w = Some y \<Longrightarrow>
       env (snd y) = env w \<and> clock w \<le> clock (snd y) \<and> limiterConfig (fst y) = limiterConfig rl"
    "(let a = acquire (clock w) rl
      in if fst a then Some (snd a, w)
         else case minimum (requests (snd a)) of
              None \<Rightarrow> waitForSlot (snd a) (sleep 1 w)
              | Some oldestRequest \<Rightarrow>
                  let waitTime = timeWindow (limiterConfig (snd a)) - (clock w - oldestRequest)
                  in if 0 < waitTime
                     then waitForSlot (snd a) (sleep (real_of_int waitTime) w)
                     else waitForSlot (snd a) w) = Some y"
  let ?a = "acquire (clock w) rl"
  have cfg: "limiterConfig (snd ?a) = limiterConfig rl"
    by (simp add: acquire_def purge_def Let_def)
  have sl: "env (sleep ms w) = env w \<and> clock w \<le> clock (sleep ms w)" for ms
    using timerDelay_pos[of ms] by (simp add: sleep_def)
  show "env (snd y) = env w \<and> clock w \<le> clock (snd y) \<and> limiterConfig (fst y) = limiterConfig rl"
  proof (cases "fst ?a")
    case True
    with 1(2) cfg show ?thesis by (auto simp: Let_def)
  next
    case False
    show ?thesis
    proof (cases "minimum (requests (snd ?a))")
      case None
      with False 1(2) have "waitForSlot (snd ?a) (sleep 1 w) = Some y" by (simp add: Let_def)
      from 1(1)[OF this] sl[of 1] cfg show ?thesis by auto
    next
      case (Some oldest)
      let ?wt = "timeWindow (limiterConfig (snd ?a)) - (clock w - oldest)"
      show ?thesis
      proof (cases "0 < ?wt")
        case True
        with False Some 1(2) have "waitForSlot (snd ?a) (sleep (real_of_int ?wt) w) = Some y"
          by (simp add: Let_def)
        from 1(1)[OF this] sl[of "real_of_int ?wt"] cfg show ?thesis by auto
      next
        case f: False
        with False Some 1(2) have "waitForSlot (snd ?a) w = Some y" by (simp add: Let_def)
        from 1(1)[OF this] cfg show ?thesis by auto
      qed
    qed
  qed
qed

text \<open>The pipeline once the rate limiter has granted a slot.\<close>

lemma processEmail_granted:
  assumes "waitForSlot (rateLimiter s) w = Some (rl, w1)"
  shows "processEmail emailId e key userId s w =
     (let s1 = updateStatus emailId sending None None (clock w) s
      in case IdempotencyService_execute key (withBreakers (sendWithFallback (config s) e))
                (idempotencyService s) (World (clock w1) (circuitBreakers s, env w1)) of
           (r, idem, W) \<Rightarrow>
             (let s2 = s1\<lparr>rateLimiter := rl, idempotencyService := idem,
                          circuitBreakers := fst (env W)\<rparr>;
                  w2 = World (clock W) (snd (env W))
              in case r of
                   Inr res \<Rightarrow> Some (Inr (), updateStatus emailId sent (Some res) None (clock w2) s2, w2)
                 | Inl err \<Rightarrow>
                     Some (Inl err,
                           updateStatus emailId failed None
                             (Some (case err of Error m \<Rightarrow> m | NonError v \<Rightarrow> ''Unknown error''))
                             (clock w2) s2,
                           w2)))"
  using assms by (simp add: processEmail_def Let_def updateStatus_fields)

lemma processEmail_settles:
  assumes "1 \<le> maxRequests (limiterConfig (rateLimiter s))"
  shows "\<exists>r s' w'. processEmail emailId e key userId s w = Some (r, s', w')"
proof -
  from waitForSlot_terminates[OF assms, of w] obtain rl w1 where
    "waitForSlot (rateLimiter s) w = Some (rl, w1)" by auto
  from processEmail_granted[OF this, of emailId e key userId] show ?thesis
    by (auto simp: Let_def split: prod.splits sum.splits)
qed


section \<open>EmailService: the drain handler and the empty dedup key\<close>

lemma execute_success_cached:
  assumes "IdempotencyService_execute key operation svc w = (Inr res, svc', w')"
  shows "cache svc' key \<noteq> None"
proof (cases "cache svc key")
  case (Some r)
  with assms show ?thesis by (auto simp: IdempotencyService_execute_def)
next
  case None
  show ?thesis
  proof (cases "key \<in> pendingRequests svc")
    case True
    from waitForPendingRequest_timeout[OF None True, of "clock w" w] assms None True
    show ?thesis by (simp add: IdempotencyService_execute_def)
  next
    case False
    with assms None show ?thesis
      by (auto simp: IdempotencyService_execute_def Let_def split: prod.splits sum.splits)
  qed
qed

lemma handler_success_cached:
  assumes "queueHandler item s w = Some (Inr (), s', w')"
  shows "cache (idempotencyService s') [] \<noteq> None"
proof -
  from assms obtain rl w1 where ws: "waitForSlot (rateLimiter s) w = Some (rl, w1)"
    by (auto simp: queueHandler_def processEmail_def Let_def updateStatus_fields split: option.splits)
  obtain r idem W where
    ex: "IdempotencyService_execute [] (withBreakers (sendWithFallback (config s) (email item)))
           (idempotencyService s) (World (clock w1) (circuitBreakers s, env w1)) = (r, idem, W)"
    by (metis prod_cases3)
  from assms obtain res where r: "r = Inr res" and i: "idempotencyService s' = idem"
    unfolding queueHandler_def processEmail_granted[OF ws] ex
    by (auto simp: Let_def updateStatus_fields split: sum.splits)
  from execute_success_cached[OF ex[unfolded r]] i show ?thesis by simp
qed

lemma handler_adopts:
  assumes "cache (idempotencyService s) [] = Some r"
    and "1 \<le> maxRequests (limiterConfig (rateLimiter s))"
  shows "\<exists>rl w1 s2. waitForSlot (rateLimiter s) w = Some (rl, w1) \<and> env w1 = env w \<and>
           queueHandler item s w = Some (Inr (), s2, w1) \<and>
           s2 = updateStatus (itemId item) sent (Some r) None (clock w1)
                  ((updateStatus (itemId item) sending None None (clock w) s)\<lparr>rateLimiter := rl\<rparr>) \<and>
           circuitBreakers s2 = circuitBreakers s \<and>
           idempotencyService s2 = idempotencyService s \<and>
           config s2 = config s"
proof -
  from waitForSlot_terminates[OF assms(2), of w] obtain rl w1 where
    ws: "waitForSlot (rateLimiter s) w = Some (rl, w1)" by auto
  from waitForSlot_frame[OF ws] have ev: "env w1 = env w" by simp
  let ?s1 = "updateStatus (itemId item) sending None None (clock w) s"
  have same: "?s1\<lparr>rateLimiter := rl, idempotencyService := idempotencyService s,
                    circuitBreakers := circuitBreakers s\<rparr> = ?s1\<lparr>rateLimiter := rl\<rparr>"
    using updateStatus_fields(2,4)[of "itemId item" sending None None "clock w" s]
    by (cases ?s1) auto
  have h: "queueHandler item s w =
             Some (Inr (), updateStatus (itemId item) sent (Some r) None (clock w1)
                            (?s1\<lparr>rateLimiter := rl\<rparr>), w1)"
    unfolding queueHandler_def processEmail_granted[OF ws]
    using assms(1) by (simp add: IdempotencyService_execute_def Let_def same)
  show ?thesis
    using ws ev h by (simp add: updateStatus_fields)
qed

text \<open>
  C9. The drain handler runs the pipeline with the empty string as dedup key, for every
  item. When the handler succeeds, an outcome is cached under the empty key afterwards.
  And when an outcome \<open>r\<close> is cached under the empty key (and \<^verbatim>\<open>maxRequests\<close> is at least 1,
  so that the wait for a slot ends), the handler succeeds for any item: it waits for its
  slot and records \<open>r\<close> as the outcome of the item, the environment of the backends is as
  it was, and breakers, cache and configuration are unchanged: neither the result nor the
  state depends on the item's message or on the backends, so no backend is invoked.
\<close>

theorem drain_shares_empty_key:
  "queueHandler item s w = processEmail (itemId item) (email item) [] None s w \<and>
   (queueHandler item s w = Some (Inr (), s', w') \<longrightarrow>
      cache (idempotencyService s') [] \<noteq> None) \<and>
   (cache (idempotencyService s) [] = Some r \<and>
    1 \<le> maxRequests (limiterConfig (rateLimiter s)) \<longrightarrow>
      (\<exists>rl w1 s2. waitForSlot (rateLimiter s) w = Some (rl, w1) \<and> env w1 = env w \<and>
           queueHandler item s w = Some (Inr (), s2, w1) \<and>
           s2 = updateStatus (itemId item) sent (Some r) None (clock w1)
                  ((updateStatus (itemId item) sending None None (clock w) s)\<lparr>rateLimiter := rl\<rparr>) \<and>
           circuitBreakers s2 = circuitBreakers s \<and>
           idempotencyService s2 = idempotencyService s \<and>
           config s2 = config s))"
proof (intro conjI impI)
  show "queueHandler item s w = processEmail (itemId item) (email item) [] None s w"
    by (simp add: queueHandler_def)
next
  assume "queueHandler item s w = Some (Inr (), s', w')"
  then show "cache (idempotencyService s') [] \<noteq> None" by (rule handler_success_cached)
next
  assume "cache (idempotencyService s) [] = Some r \<and>
          1 \<le> maxRequests (limiterConfig (rateLimiter s))"
  then show "\<exists>rl w1 s2. waitForSlot (rateLimiter s) w = Some (rl, w1) \<and> env w1 = env w \<and>
           queueHandler item s w = Some (Inr (), s2, w1) \<and>
           s2 = updateStatus (itemId item) sent (Some r) None (clock w1)
                  ((updateStatus (itemId item) sending None None (clock w) s)\<lparr>rateLimiter := rl\<rparr>) \<and>
           circuitBreakers s2 = circuitBreakers s \<and>
           idempotencyService s2 = idempotencyService s \<and>
           config s2 = config s"
    using handler_adopts[of s r w item] by blast
qed

lemma two_queued_run:
  "\<exists>s'. serviceRun
          (snd (enqueueEmail otherEmail 0 ''q2''
             (snd (enqueueEmail exampleEmail 0 ''q1'' reliableService (World 0 0))) (World 3 0)))
          [(0, StartQueueProcessing), (5, ProcessNext), (10, ProcessNext), (10, ProcessNext)]
          (World 3 0)
        = Some (s', World 108 1) \<and>
        map_option messageId (cache (idempotencyService s') []) = Some (Some ''msg_Invoice'') \<and>
        queue (emailQueue s') = []"
  by (simp add: reliableService_def enqueueEmail_def enqueue_def insertWithPriority_def
     EmailService_new_def exampleConfig_def otherEmail_def
     reliableProvider_def EmailQueue_new_def serviceStep_def startQueueProcessing_def startProcessing_def
     processNext_def dequeue_def queueHandler_def processEmail_def updateStatus_def waitForSlot.simps
     acquire_def purge_def RateLimiter_new_def exampleRateLimit_def IdempotencyService_execute_def
     IdempotencyService_new_def withBreakers_def sendWithFallback_def CircuitBreaker_execute_def admit_def
     CircuitBreaker_new_def RetryMechanism_execute.simps onSuccess_def exampleRetryConfig_def Let_def)

lemma cachedService_slot:
  "waitForSlot (rateLimiter cachedService) (World 10 0)
     = Some (\<lparr>requests = [10], limiterConfig = exampleRateLimit\<rparr>, World 10 0)"
  by (simp add: cachedService_def reliableService_def EmailService_new_def exampleConfig_def
        waitForSlot.simps acquire_def purge_def RateLimiter_new_def exampleRateLimit_def Let_def)

text \<open>
  Witness: with an outcome cached under the empty key, the handler succeeds for a queued
  item at once and the backend's counter stays at 0. And in a run: two different emails are
  queued on a new service and the drain runs three times; the backend is invoked once
  (its counter ends at 1), for the email with subject \<open>Invoice\<close>, whose outcome is the one
  cached under the empty key.
\<close>

theorem drain_shares_empty_key_witness:
  "cache (idempotencyService cachedService) [] = Some exampleResult \<and>
   1 \<le> maxRequests (limiterConfig (rateLimiter cachedService)) \<and>
   (\<exists>s2. queueHandler queuedItem cachedService (World 10 0) = Some (Inr (), s2, World 10 0) \<and>
         circuitBreakers s2 = circuitBreakers cachedService \<and>
         idempotencyService s2 = idempotencyService cachedService) \<and>
   (\<exists>s'. serviceRun
          (snd (enqueueEmail otherEmail 0 ''q2''
             (snd (enqueueEmail exampleEmail 0 ''q1'' reliableService (World 0 0))) (World 3 0)))
          [(0, StartQueueProcessing), (5, ProcessNext), (10, ProcessNext), (10, ProcessNext)]
          (World 3 0)
        = Some (s', World 108 1) \<and>
        map_option messageId (cache (idempotencyService s') []) = Some (Some ''msg_Invoice'') \<and>
        queue (emailQueue s') = [])"
proof -
  have c: "cache (idempotencyService cachedService) [] = Some exampleResult"
    by (simp add: cachedService_def)
  have m: "1 \<le> maxRequests (limiterConfig (rateLimiter cachedService))"
    by (simp add: cachedService_def reliableService_def EmailService_new_def exampleConfig_def
          RateLimiter_new_def exampleRateLimit_def)
  from drain_shares_empty_key[where item = queuedItem and s = cachedService and w = "World 10 0"
      and r = exampleResult]
    c m
  obtain rl w1 s2 where
    "waitForSlot (rateLimiter cachedService) (World 10 0) = Some (rl, w1)"
    "queueHandler queuedItem cachedService (World 10 0) = Some (Inr (), s2, w1)"
    "circuitBreakers s2 = circuitBreakers cachedService"
    "idempotencyService s2 = idempotencyService cachedService"
    by blast
  then have "\<exists>s2. queueHandler queuedItem cachedService (World 10 0) = Some (Inr (), s2, World 10 0) \<and>
         circuitBreakers s2 = circuitBreakers cachedService \<and>
         idempotencyService s2 = idempotencyService cachedService"
    by (auto simp: cachedService_slot)
  with c m two_queued_run show ?thesis by blast
qed

section \<open>EmailService: every backend fails\<close>












section \<open>EmailService: submission\<close>










end
